theory Spec2Isabelle
  imports Complex_Main
begin

section \<open>Puffer Blast: the grid geometry and matching engine of src/App.tsx\<close>

text \<open>
  JavaScript numbers are modelled as exact reals (\<^typ>\<open>real\<close>), grid addresses and the
  score as integers; the four coordinate helpers are given a second time in double
  precision, every operation rounded, and the round trip is settled on those. \<open>Math.round x\<close> is \<open>\<lfloor>x + 1/2\<rfloor>\<close>, which is \<^const>\<open>round\<close>.
  \<open>row % 2 !== 0\<close> holds exactly for the odd rows (the remainder is 1 or -1), which is
  \<open>row mod 2 \<noteq> 0\<close>. The rendering calls, the heart particles and the floating images
  do not influence the field, the projectile, the score or the game state and are left out.
\<close>

subsection \<open>Constants and types (lines 12-33)\<close>

definition GRID_COLS :: int where
  "GRID_COLS = 8"

definition BUBBLE_RADIUS :: real where
  "BUBBLE_RADIUS = 20"

definition CANVAS_WIDTH :: real where
  "CANVAS_WIDTH = real_of_int GRID_COLS * BUBBLE_RADIUS * 2"

definition CANVAS_HEIGHT :: real where
  "CANVAS_HEIGHT = 500"

record Bubble =
  b_x :: real
  b_y :: real
  b_color :: string
  b_id :: string

record Projectile =
  p_x :: real
  p_y :: real
  p_vx :: real
  p_vy :: real
  p_color :: string

datatype GameState = Start | Playing | Gameover

text \<open>
  The simulation state: the React state \<open>score\<close>, \<open>gameState\<close>, \<open>nextColor\<close> and the
  refs \<open>bubblesRef\<close>, \<open>projectileRef\<close> (the state \<open>bubbles\<close> always mirrors \<open>bubblesRef\<close>).
\<close>

record SimState =
  score :: int
  gameState :: GameState
  bubblesRef :: "Bubble list"
  projectileRef :: "Projectile option"
  nextColor :: string

subsection \<open>Helper functions (lines 37-39, 129-144)\<close>

definition getDistance :: "real \<Rightarrow> real \<Rightarrow> real \<Rightarrow> real \<Rightarrow> real" where
  "getDistance x1 y1 x2 y2 = sqrt ((x2 - x1)\<^sup>2 + (y2 - y1)\<^sup>2)"

definition getRow :: "real \<Rightarrow> int" where
  "getRow y = round ((y - BUBBLE_RADIUS) / (BUBBLE_RADIUS * 1.732))"

definition getCol :: "real \<Rightarrow> int \<Rightarrow> int" where
  "getCol x row =
     (let isOffset = (row mod 2 \<noteq> 0);
          offsetX = (if isOffset then BUBBLE_RADIUS else 0)
      in round ((x - BUBBLE_RADIUS - offsetX) / (BUBBLE_RADIUS * 2)))"

definition getX :: "int \<Rightarrow> int \<Rightarrow> real" where
  "getX row col =
     (let isOffset = (row mod 2 \<noteq> 0)
      in real_of_int col * BUBBLE_RADIUS * 2 + BUBBLE_RADIUS + (if isOffset then BUBBLE_RADIUS else 0))"

definition getY :: "int \<Rightarrow> real" where
  "getY row = real_of_int row * BUBBLE_RADIUS * 1.732 + BUBBLE_RADIUS"

subsection \<open>The grid helpers in double precision\<close>

text \<open>
  A JavaScript number is an IEEE 754 binary64 value, and every arithmetic operation yields
  the exact result rounded to the nearest such value, ties to the even significand.
  \<open>fl64\<close> is that rounding on the reals (53 significant bits; overflow and subnormal
  numbers are left out, no magnitude here comes near them). \<open>Math.round\<close> is exact on a
  double. The four helpers below are the helpers above with every operation rounded, in the
  order the source evaluates them; \<open>c1732\<close> is the double the literal \<open>1.732\<close> denotes.
\<close>

definition roundEven :: "real \<Rightarrow> int" where
  "roundEven t =
     (let n = \<lfloor>t\<rfloor>; f = t - of_int n
      in if f < 1 / 2 then n else if 1 / 2 < f then n + 1 else if even n then n else n + 1)"

definition fl64 :: "real \<Rightarrow> real" where
  "fl64 x =
     (if x = 0 then 0
      else let e = \<lfloor>log 2 \<bar>x\<bar>\<rfloor>;
               ulp = 2 powr (of_int e - 52)
           in ulp * of_int (roundEven (x / ulp)))"

definition c1732 :: real where
  "c1732 = fl64 1.732"

definition getRow64 :: "real \<Rightarrow> int" where
  "getRow64 y = round (fl64 (fl64 (y - BUBBLE_RADIUS) / fl64 (BUBBLE_RADIUS * c1732)))"

definition getCol64 :: "real \<Rightarrow> int \<Rightarrow> int" where
  "getCol64 x row =
     (let isOffset = (row mod 2 \<noteq> 0);
          offsetX = (if isOffset then BUBBLE_RADIUS else 0)
      in round (fl64 (fl64 (fl64 (x - BUBBLE_RADIUS) - offsetX) / fl64 (BUBBLE_RADIUS * 2))))"

definition getX64 :: "int \<Rightarrow> int \<Rightarrow> real" where
  "getX64 row col =
     (let isOffset = (row mod 2 \<noteq> 0)
      in fl64 (fl64 (fl64 (fl64 (real_of_int col * BUBBLE_RADIUS) * 2) + BUBBLE_RADIUS)
               + (if isOffset then BUBBLE_RADIUS else 0)))"

definition getY64 :: "int \<Rightarrow> real" where
  "getY64 row = fl64 (fl64 (fl64 (real_of_int row * BUBBLE_RADIUS) * c1732) + BUBBLE_RADIUS)"

subsection \<open>initGame (lines 147-168)\<close>

text \<open>
  The two random draws of a cell are parameters: \<open>colorAt row col\<close> is the colour drawn
  by \<open>COLORS[Math.floor(Math.random() * COLORS.length)]\<close> and \<open>idAt row col\<close> the
  identifier built by the template \<open>`${row}-${col}-${Math.random()}`\<close>.
  The loops push in place; here they append to the accumulated list.
\<close>

definition initialBubbles :: "(int \<Rightarrow> int \<Rightarrow> string) \<Rightarrow> (int \<Rightarrow> int \<Rightarrow> string) \<Rightarrow> Bubble list" where
  "initialBubbles colorAt idAt =
     fold (\<lambda>row acc.
        let colsInRow = (if row mod 2 = 0 then GRID_COLS else GRID_COLS - 1)
        in fold (\<lambda>col acc'.
             acc' @ [\<lparr>b_x = getX row col, b_y = getY row,
                      b_color = colorAt row col, b_id = idAt row col\<rparr>])
             [0..colsInRow - 1] acc)
       [0..5] []"

definition initGame :: "(int \<Rightarrow> int \<Rightarrow> string) \<Rightarrow> (int \<Rightarrow> int \<Rightarrow> string) \<Rightarrow> SimState \<Rightarrow> SimState" where
  "initGame colorAt idAt st =
     st\<lparr>bubblesRef := initialBubbles colorAt idAt,
        score := 0,
        gameState := Playing,
        projectileRef := None\<rparr>"

subsection \<open>handleCanvasClick (lines 170-195)\<close>

text \<open>
  \<open>Math.atan2\<close> belongs to the language, not to the repository; it is written out from
  its standard meaning (the angle of the point \<open>(x, y)\<close> in \<open>(-\<pi>, \<pi>]\<close>, and 0 at the origin).
\<close>

definition atan2 :: "real \<Rightarrow> real \<Rightarrow> real" where
  "atan2 y x =
     (if 0 < x then arctan (y / x)
      else if x < 0 \<and> 0 \<le> y then arctan (y / x) + pi
      else if x < 0 \<and> y < 0 then arctan (y / x) - pi
      else if 0 < y then pi / 2
      else if y < 0 then - (pi / 2)
      else 0)"

text \<open>
  \<open>targetX\<close>, \<open>targetY\<close> are the click position relative to the canvas, \<open>newColor\<close> the
  colour drawn for the next shot. The canvas is taken to be mounted.
\<close>

definition handleCanvasClick :: "real \<Rightarrow> real \<Rightarrow> string \<Rightarrow> SimState \<Rightarrow> SimState" where
  "handleCanvasClick targetX targetY newColor st =
     (if gameState st \<noteq> Playing \<or> projectileRef st \<noteq> None then st
      else
        let startX = CANVAS_WIDTH / 2;
            startY = CANVAS_HEIGHT - 40;
            angle = atan2 (targetY - startY) (targetX - startX);
            speed = 8
        in st\<lparr>projectileRef :=
                 Some \<lparr>p_x = startX, p_y = startY,
                       p_vx = cos angle * speed, p_vy = sin angle * speed,
                       p_color = nextColor st\<rparr>,
               nextColor := newColor\<rparr>)"

subsection \<open>findMatches (lines 197-207)\<close>

text \<open>
  The recursion goes through \<open>neighbors.forEach\<close>, which threads the shared set
  \<open>matches\<close> through the calls. The first argument bounds the depth of the nested calls
  (the call stack); with the bound used up the result is \<open>None\<close>.
\<close>

fun findMatches :: "nat \<Rightarrow> Bubble \<Rightarrow> Bubble list \<Rightarrow> string set \<Rightarrow> string set option"
  and findMatches_forEach :: "nat \<Rightarrow> Bubble list \<Rightarrow> Bubble list \<Rightarrow> string set \<Rightarrow> string set option"
where
  "findMatches 0 bubble currentBubbles matches = None"
| "findMatches (Suc depth) bubble currentBubbles matches =
     (let matches1 = insert (b_id bubble) matches;
          neighbors = filter (\<lambda>b.
              b_id b \<notin> matches1 \<and>
              b_color b = b_color bubble \<and>
              getDistance (b_x b) (b_y b) (b_x bubble) (b_y bubble) < BUBBLE_RADIUS * 2.5)
            currentBubbles
      in findMatches_forEach depth neighbors currentBubbles matches1)"
| "findMatches_forEach depth [] currentBubbles matches = Some matches"
| "findMatches_forEach depth (n # ns) currentBubbles matches =
     (case findMatches depth n currentBubbles matches of
        None \<Rightarrow> None
      | Some matches' \<Rightarrow> findMatches_forEach depth ns currentBubbles matches')"

subsection \<open>findFloatingBubbles (lines 209-224)\<close>

fun traverse :: "nat \<Rightarrow> Bubble \<Rightarrow> Bubble list \<Rightarrow> string set \<Rightarrow> string set option"
  and traverse_forEach :: "nat \<Rightarrow> Bubble list \<Rightarrow> Bubble list \<Rightarrow> string set \<Rightarrow> string set option"
where
  "traverse 0 bubble currentBubbles connectedToTop = None"
| "traverse (Suc depth) bubble currentBubbles connectedToTop =
     (let connected1 = insert (b_id bubble) connectedToTop;
          neighbors = filter (\<lambda>b.
              b_id b \<notin> connected1 \<and>
              getDistance (b_x b) (b_y b) (b_x bubble) (b_y bubble) < BUBBLE_RADIUS * 2.5)
            currentBubbles
      in traverse_forEach depth neighbors currentBubbles connected1)"
| "traverse_forEach depth [] currentBubbles connectedToTop = Some connectedToTop"
| "traverse_forEach depth (n # ns) currentBubbles connectedToTop =
     (case traverse depth n currentBubbles connectedToTop of
        None \<Rightarrow> None
      | Some connected' \<Rightarrow> traverse_forEach depth ns currentBubbles connected')"

definition findFloatingBubbles :: "nat \<Rightarrow> Bubble list \<Rightarrow> Bubble list option" where
  "findFloatingBubbles depth currentBubbles =
     (let topRow = filter (\<lambda>b. b_y b \<le> BUBBLE_RADIUS * 2) currentBubbles
      in case traverse_forEach depth topRow currentBubbles {} of
           None \<Rightarrow> None
         | Some connectedToTop \<Rightarrow>
             Some (filter (\<lambda>b. b_id b \<notin> connectedToTop) currentBubbles))"

subsection \<open>The simulation tick: update (lines 284-473)\<close>

text \<open>Lines 347-354: integrate the position, then bounce off the walls.\<close>

definition moveProjectile :: "Projectile \<Rightarrow> Projectile" where
  "moveProjectile p0 =
     (let p = p0\<lparr>p_x := p_x p0 + p_vx p0, p_y := p_y p0 + p_vy p0\<rparr>
      in if p_x p < BUBBLE_RADIUS \<or> p_x p > CANVAS_WIDTH - BUBBLE_RADIUS
         then p\<lparr>p_vx := p_vx p * (-1)\<rparr> else p)"

text \<open>Lines 356-370: the ceiling or a bubble is hit.\<close>

definition collided :: "Projectile \<Rightarrow> Bubble list \<Rightarrow> bool" where
  "collided p bs =
     (p_y p < BUBBLE_RADIUS \<or>
      (\<exists>b\<in>set bs. getDistance (p_x p) (p_y p) (b_x b) (b_y b) < BUBBLE_RADIUS * 1.8))"

text \<open>Lines 383-388.\<close>

definition isOccupied :: "Bubble list \<Rightarrow> int \<Rightarrow> int \<Rightarrow> bool" where
  "isOccupied bs r c =
     (\<exists>b\<in>set bs. let br = getRow (b_y b); bc = getCol (b_x b) br in br = r \<and> bc = c)"

text \<open>
  Lines 393-411: the search of the neighbourhood. The triple is
  \<open>(bestDist, bestRow, bestCol)\<close>, with \<open>None\<close> for the initial \<open>Infinity\<close>.
\<close>

type_synonym best = "real option \<times> int \<times> int"

definition searchCell :: "Bubble list \<Rightarrow> real \<Rightarrow> real \<Rightarrow> int \<Rightarrow> int \<Rightarrow> int \<Rightarrow> int \<Rightarrow> best \<Rightarrow> best" where
  "searchCell bs prevX prevY row col dr dc best =
     (let nr = row + dr; nc = col + dc
      in if nr < 0 then best
         else if \<not> isOccupied bs nr nc then
           (let dist = getDistance prevX prevY (getX nr nc) (getY nr)
            in if (case fst best of None \<Rightarrow> True | Some bestDist \<Rightarrow> dist < bestDist)
               then (Some dist, nr, nc) else best)
         else best)"

definition searchNeighbors :: "Bubble list \<Rightarrow> real \<Rightarrow> real \<Rightarrow> int \<Rightarrow> int \<Rightarrow> best" where
  "searchNeighbors bs prevX prevY row col =
     fold (\<lambda>dr best. fold (\<lambda>dc best'. searchCell bs prevX prevY row col dr dc best') [-1, 0, 1] best)
       [-1, 0, 1] (None, row, col)"

text \<open>Lines 378-414: the cell the new bubble is placed in.\<close>

definition resolveCell :: "Bubble list \<Rightarrow> real \<Rightarrow> real \<Rightarrow> int \<times> int" where
  "resolveCell bs prevX prevY =
     (let row = getRow prevY;
          col = getCol prevX row
      in if isOccupied bs row col
         then (let best = searchNeighbors bs prevX prevY row col in (fst (snd best), snd (snd best)))
         else (row, col))"

text \<open>
  Lines 375-421: the bubble a placement materializes. \<open>newId\<close> is the identifier
  \<open>`new-${Date.now()}`\<close>.
\<close>

definition newBubbleOf :: "string \<Rightarrow> Projectile \<Rightarrow> SimState \<Rightarrow> Bubble" where
  "newBubbleOf newId p st =
     (let prevX = p_x p - p_vx p;
          prevY = p_y p - p_vy p;
          (row, col) = resolveCell (bubblesRef st) prevX prevY
      in \<lparr>b_x = getX row col, b_y = getY row, b_color = p_color p, b_id = newId\<rparr>)"

text \<open>
  Lines 452-457, the end of a placement: the projectile is cleared and the field is checked
  against the game-over line.
\<close>

definition endPlacement :: "SimState \<Rightarrow> SimState" where
  "endPlacement st =
     (let st' = st\<lparr>projectileRef := None\<rparr>
      in if (\<exists>b\<in>set (bubblesRef st'). b_y b > CANVAS_HEIGHT - 100)
         then st'\<lparr>gameState := Gameover\<rparr> else st')"

text \<open>
  Lines 372-457: the placement after a collision; \<open>depth\<close> bounds the two flood fills.
  The match branch or the plain branch runs first, then the end of the placement.
\<close>

definition placeBubble :: "nat \<Rightarrow> string \<Rightarrow> Projectile \<Rightarrow> SimState \<Rightarrow> SimState option" where
  "placeBubble depth newId p st =
     (let newBubble = newBubbleOf newId p st;
          updatedBubbles = bubblesRef st @ [newBubble]
      in case findMatches depth newBubble updatedBubbles {} of
           None \<Rightarrow> None
         | Some matches \<Rightarrow>
             map_option endPlacement
               (if card matches \<ge> 3 then
                  (let afterMatch = filter (\<lambda>b. b_id b \<notin> matches) updatedBubbles
                   in case findFloatingBubbles depth afterMatch of
                        None \<Rightarrow> None
                      | Some floating \<Rightarrow>
                         (let floatingIds = set (map b_id floating);
                              finalBubbles = filter (\<lambda>b. b_id b \<notin> floatingIds) afterMatch
                          in Some (st\<lparr>bubblesRef := finalBubbles,
                                      score := score st + int (card matches) * 10
                                               + int (length floating) * 20\<rparr>)))
                else Some (st\<lparr>bubblesRef := updatedBubbles\<rparr>)))"

definition update :: "nat \<Rightarrow> string \<Rightarrow> SimState \<Rightarrow> SimState option" where
  "update depth newId st =
     (if gameState st \<noteq> Playing then Some st
      else case projectileRef st of
             None \<Rightarrow> Some st
           | Some p0 \<Rightarrow>
              (let p = moveProjectile p0
               in if collided p (bubblesRef st) then placeBubble depth newId p st
                  else if p_y p < - BUBBLE_RADIUS \<or> p_y p > CANVAS_HEIGHT + BUBBLE_RADIUS
                  then Some (st\<lparr>projectileRef := None\<rparr>)
                  else Some (st\<lparr>projectileRef := Some p\<rparr>)))"

subsection \<open>Runs of the simulation\<close>

text \<open>
  What happens to the simulation: an animation frame, a click on the canvas, or a click
  on one of the two buttons that call \<open>initGame\<close>.
\<close>

datatype Event =
    Tick string
  | Click real real string
  | Reset "int \<Rightarrow> int \<Rightarrow> string" "int \<Rightarrow> int \<Rightarrow> string"

fun step :: "nat \<Rightarrow> Event \<Rightarrow> SimState \<Rightarrow> SimState option" where
  "step depth (Tick newId) st = update depth newId st"
| "step depth (Click targetX targetY newColor) st = Some (handleCanvasClick targetX targetY newColor st)"
| "step depth (Reset colorAt idAt) st = Some (initGame colorAt idAt st)"

fun run :: "nat \<Rightarrow> Event list \<Rightarrow> SimState \<Rightarrow> SimState option" where
  "run depth [] st = Some st"
| "run depth (e # es) st =
     (case step depth e st of None \<Rightarrow> None | Some st' \<Rightarrow> run depth es st')"

text \<open>The state the component is mounted with (lines 91-98).\<close>

definition mounted :: "string \<Rightarrow> SimState" where
  "mounted color0 =
     \<lparr>score = 0, gameState = Start, bubblesRef = [], projectileRef = None, nextColor = color0\<rparr>"


subsection \<open>Notions the properties are stated with\<close>

text \<open>
  Both flood fills are instances of one scheme; \<open>adj b bubble\<close> says that \<open>b\<close> is taken
  as a neighbour of the bubble being visited.
\<close>

fun flood :: "(Bubble \<Rightarrow> Bubble \<Rightarrow> bool) \<Rightarrow> nat \<Rightarrow> Bubble \<Rightarrow> Bubble list \<Rightarrow> string set \<Rightarrow> string set option"
  and flood_forEach :: "(Bubble \<Rightarrow> Bubble \<Rightarrow> bool) \<Rightarrow> nat \<Rightarrow> Bubble list \<Rightarrow> Bubble list \<Rightarrow> string set \<Rightarrow> string set option"
where
  "flood adj 0 bubble cur M = None"
| "flood adj (Suc d) bubble cur M =
     flood_forEach adj d (filter (\<lambda>b. b_id b \<notin> insert (b_id bubble) M \<and> adj b bubble) cur) cur
       (insert (b_id bubble) M)"
| "flood_forEach adj d [] cur M = Some M"
| "flood_forEach adj d (n # ns) cur M =
     (case flood adj d n cur M of None \<Rightarrow> None | Some M' \<Rightarrow> flood_forEach adj d ns cur M')"

definition sameColorNear :: "Bubble \<Rightarrow> Bubble \<Rightarrow> bool" where
  "sameColorNear b bubble =
     (b_color b = b_color bubble \<and>
      getDistance (b_x b) (b_y b) (b_x bubble) (b_y bubble) < BUBBLE_RADIUS * 2.5)"

definition near :: "Bubble \<Rightarrow> Bubble \<Rightarrow> bool" where
  "near b bubble = (getDistance (b_x b) (b_y b) (b_x bubble) (b_y bubble) < BUBBLE_RADIUS * 2.5)"

text \<open>
  The connected same-colour set of a seed in a field: the seed, and every bubble of the field
  that has the colour of, and lies closer than 2.5 radii to, a bubble already in the set.
\<close>

inductive_set cluster :: "Bubble list \<Rightarrow> Bubble \<Rightarrow> Bubble set"
  for cur :: "Bubble list" and seed :: Bubble
where
  seed: "seed \<in> cluster cur seed"
| member: "x \<in> cluster cur seed \<Longrightarrow> y \<in> set cur \<Longrightarrow> sameColorNear y x \<Longrightarrow> y \<in> cluster cur seed"

text \<open>
  The 3x3 neighbourhood of a cell in the order the two loops scan it, its free cells with a
  row of at least 0, and the distance of a cell's pixel centre from the pre-collision point.
\<close>

definition neighborhood :: "int \<Rightarrow> int \<Rightarrow> (int \<times> int) list" where
  "neighborhood row col = concat (map (\<lambda>dr. map (\<lambda>dc. (row + dr, col + dc)) [-1, 0, 1]) [-1, 0, 1])"

definition freeCells :: "Bubble list \<Rightarrow> int \<Rightarrow> int \<Rightarrow> (int \<times> int) list" where
  "freeCells bs row col = filter (\<lambda>cell. 0 \<le> fst cell \<and> \<not> isOccupied bs (fst cell) (snd cell)) (neighborhood row col)"

definition centerDistance :: "real \<Rightarrow> real \<Rightarrow> int \<times> int \<Rightarrow> real" where
  "centerDistance prevX prevY cell = getDistance prevX prevY (getX (fst cell) (snd cell)) (getY (fst cell))"

fun isReset :: "Event \<Rightarrow> bool" where
  "isReset (Reset colorAt idAt) = True"
| "isReset (Tick newId) = False"
| "isReset (Click targetX targetY newColor) = False"

text \<open>One step of the search on a free cell: the cell is taken when it is strictly nearer.\<close>

definition takeNearer :: "real \<Rightarrow> real \<Rightarrow> int \<times> int \<Rightarrow> best \<Rightarrow> best" where
  "takeNearer prevX prevY cell best =
     (if (case fst best of None \<Rightarrow> True | Some bestDist \<Rightarrow> centerDistance prevX prevY cell < bestDist)
      then (Some (centerDistance prevX prevY cell), fst cell, snd cell) else best)"

subsection \<open>Example states\<close>

text \<open>Small fields on which the properties are evaluated.\<close>

definition shotA :: Projectile where
  "shotA = \<lparr>p_x = 40, p_y = 50, p_vx = 0, p_vy = -8, p_color = ''#FF5555''\<rparr>"

definition fieldPair :: SimState where
  "fieldPair =
     \<lparr>score = 120, gameState = Playing,
      bubblesRef = [\<lparr>b_x = 20, b_y = 20, b_color = ''#FF5555'', b_id = ''0-0-0.1''\<rparr>,
                    \<lparr>b_x = 60, b_y = 20, b_color = ''#55FF55'', b_id = ''0-1-0.7''\<rparr>],
      projectileRef = Some shotA, nextColor = ''#5555FF''\<rparr>"

definition fieldTriple :: SimState where
  "fieldTriple =
     \<lparr>score = 120, gameState = Playing,
      bubblesRef = [\<lparr>b_x = 20, b_y = 20, b_color = ''#FF5555'', b_id = ''0-0-0.1''\<rparr>,
                    \<lparr>b_x = 60, b_y = 20, b_color = ''#FF5555'', b_id = ''0-1-0.7''\<rparr>,
                    \<lparr>b_x = 140, b_y = 20, b_color = ''#5555FF'', b_id = ''0-3-0.2''\<rparr>,
                    \<lparr>b_x = 20, b_y = 89.28, b_color = ''#55FF55'', b_id = ''2-0-0.9''\<rparr>],
      projectileRef = Some shotA, nextColor = ''#5555FF''\<rparr>"

definition fieldLow :: SimState where
  "fieldLow =
     \<lparr>score = 250, gameState = Playing,
      bubblesRef = [\<lparr>b_x = 140, b_y = 366.4, b_color = ''#55FF55'', b_id = ''new-4''\<rparr>],
      projectileRef = Some \<lparr>p_x = 140, p_y = 410, p_vx = 0, p_vy = -8, p_color = ''#FF5555''\<rparr>,
      nextColor = ''#5555FF''\<rparr>"

definition fieldOver :: SimState where
  "fieldOver =
     \<lparr>score = 250, gameState = Gameover,
      bubblesRef = [\<lparr>b_x = 140, b_y = 366.4, b_color = ''#55FF55'', b_id = ''new-4''\<rparr>,
                    \<lparr>b_x = 160, b_y = 401.04, b_color = ''#FF5555'', b_id = ''new-9''\<rparr>],
      projectileRef = None,
      nextColor = ''#5555FF''\<rparr>"

definition exampleBubbles :: "Bubble list" where
  "exampleBubbles =
     [\<lparr>b_x = 80, b_y = 54.64, b_color = ''#FF5555'', b_id = ''1-1-0.3''\<rparr>,
      \<lparr>b_x = 60, b_y = 20, b_color = ''#55FF55'', b_id = ''0-1-0.6''\<rparr>,
      \<lparr>b_x = 100, b_y = 20, b_color = ''#55FF55'', b_id = ''0-2-0.8''\<rparr>]"

definition exampleShot :: Projectile where
  "exampleShot = \<lparr>p_x = 76, p_y = 50, p_vx = 0, p_vy = -8, p_color = ''#5555FF''\<rparr>"

definition exampleState :: SimState where
  "exampleState =
     \<lparr>score = 30, gameState = Playing, bubblesRef = exampleBubbles,
      projectileRef = Some exampleShot, nextColor = ''#FFFF55''\<rparr>"

text \<open>
  A run that leaves the playfield: the colours and identifiers drawn for the initial field,
  the events, and the states the run passes through.
\<close>

definition cexColorAt :: "int \<Rightarrow> int \<Rightarrow> string" where
  "cexColorAt row col = ''#FF5555''"

definition cexIdAt :: "int \<Rightarrow> int \<Rightarrow> string" where
  "cexIdAt row col = [''0123456789'' ! nat row, CHR ''-'', ''0123456789'' ! nat col] @ ''-0.5''"

definition cexEvents :: "Event list" where
  "cexEvents =
     [Reset cexColorAt cexIdAt, Click 152 445 ''#5555FF''] @ replicate 33 (Tick ''new-1'') @
     [Click 157 456 ''#FFFF55''] @ replicate 31 (Tick ''new-2'')"

definition cexField :: "Bubble list" where
  "cexField = initialBubbles cexColorAt cexIdAt"

definition cexBubble1 :: Bubble where
  "cexBubble1 = \<lparr>b_x = 20, b_y = 227.84, b_color = ''#55FF55'', b_id = ''new-1''\<rparr>"

definition cexBubble2 :: Bubble where
  "cexBubble2 = \<lparr>b_x = 0, b_y = 262.48, b_color = ''#5555FF'', b_id = ''new-2''\<rparr>"

definition cexPlaying :: "Bubble list \<Rightarrow> string \<Rightarrow> SimState" where
  "cexPlaying bs color =
     \<lparr>score = 0, gameState = Playing, bubblesRef = bs, projectileRef = None, nextColor = color\<rparr>"

section \<open>Properties\<close>

subsection \<open>The coordinate mapper\<close>

lemma getRow_getY: "getRow (getY row) = row"
  by (simp add: getRow_def getY_def BUBBLE_RADIUS_def)

lemma getCol_getX: "getCol (getX row col) row = col"
  by (simp add: getCol_def getX_def BUBBLE_RADIUS_def Let_def)

text \<open>The rounding: its error, its value on an integer, and its value between two powers of 2.\<close>

lemma roundEven_error: "\<bar>of_int (roundEven t) - t\<bar> \<le> 1 / 2"
  unfolding roundEven_def Let_def by (auto; linarith)

lemma roundEven_of_int: "roundEven (of_int n) = n"
  by (simp add: roundEven_def)

lemma fl64_at:
  assumes "2 powr of_int e \<le> \<bar>x\<bar>" "\<bar>x\<bar> < 2 powr (of_int e + 1)"
  shows "fl64 x = 2 powr (of_int e - 52) * of_int (roundEven (x / 2 powr (of_int e - 52)))"
proof -
  have pos: "0 < \<bar>x\<bar>" using assms(1) by (smt (verit) powr_gt_zero)
  have "of_int e \<le> log 2 \<bar>x\<bar>" using assms(1) pos by (simp add: le_log_iff)
  moreover have "log 2 \<bar>x\<bar> < of_int e + 1" using assms(2) pos by (simp add: log_less_iff)
  ultimately have "\<lfloor>log 2 \<bar>x\<bar>\<rfloor> = e" by linarith
  with pos show ?thesis by (simp add: fl64_def Let_def)
qed

lemma fl64_error: "\<bar>fl64 x - x\<bar> \<le> \<bar>x\<bar> / 2 ^ 53"
proof (cases "x = 0")
  case True
  then show ?thesis by (simp add: fl64_def)
next
  case False
  define e where "e = \<lfloor>log 2 \<bar>x\<bar>\<rfloor>"
  define ulp :: real where "ulp = 2 powr (of_int e - 52)"
  have ulp: "0 < ulp" by (simp add: ulp_def)
  have f: "fl64 x = ulp * of_int (roundEven (x / ulp))"
    using False by (simp add: fl64_def Let_def e_def ulp_def)
  have "fl64 x - x = ulp * (of_int (roundEven (x / ulp)) - x / ulp)"
    unfolding f using ulp by (simp add: algebra_simps)
  then have "\<bar>fl64 x - x\<bar> = ulp * \<bar>of_int (roundEven (x / ulp)) - x / ulp\<bar>"
    using ulp by (simp add: abs_mult)
  also have "\<dots> \<le> ulp * (1 / 2)"
    using ulp roundEven_error [of "x / ulp"] by (intro mult_left_mono) simp_all
  also have "\<dots> = 2 powr of_int e / 2 ^ 53"
  proof -
    have "ulp = 2 powr of_int e / 2 powr 52" by (simp add: ulp_def powr_diff)
    then show ?thesis by simp
  qed
  also have "\<dots> \<le> \<bar>x\<bar> / 2 ^ 53"
  proof -
    have "of_int e \<le> log 2 \<bar>x\<bar>" by (simp add: e_def)
    then have "2 powr of_int e \<le> \<bar>x\<bar>" using False by (simp add: le_log_iff)
    then show ?thesis by (simp add: divide_right_mono)
  qed
  finally show ?thesis .
qed

lemma fl64_of_int:
  assumes "\<bar>n\<bar> < 2 ^ 53"
  shows "fl64 (of_int n) = of_int n"
proof (cases "n = 0")
  case True
  then show ?thesis by (simp add: fl64_def)
next
  case False
  define e where "e = \<lfloor>log 2 \<bar>real_of_int n\<bar>\<rfloor>"
  have n1: "1 \<le> \<bar>real_of_int n\<bar>" using False by (simp flip: of_int_abs)
  have e0: "0 \<le> e" using n1 by (simp add: e_def)
  have "log 2 \<bar>real_of_int n\<bar> < 53"
  proof -
    have "\<bar>real_of_int n\<bar> < 2 powr 53" using assms by (simp flip: of_int_abs)
    then show ?thesis using n1 by (simp add: log_less_iff)
  qed
  then have e52: "e \<le> 52" unfolding e_def by linarith
  define k where "k = nat (52 - e)"
  have u: "2 powr (real_of_int e - 52) = 1 / 2 ^ k"
  proof -
    have "real_of_int e - 52 = - real k" using e52 by (simp add: k_def)
    then show ?thesis by (simp add: powr_minus powr_realpow inverse_eq_divide)
  qed
  have "real_of_int n / (1 / 2 ^ k) = of_int (n * 2 ^ k)" by simp
  then have "roundEven (real_of_int n / (1 / 2 ^ k)) = n * 2 ^ k"
    by (simp only: roundEven_of_int)
  then show ?thesis
    using False by (simp add: fl64_def Let_def flip: e_def add: u)
qed

lemma fl64_up:
  assumes "2 ^ (52 + k) \<le> \<bar>x\<bar>" "\<bar>x\<bar> < 2 ^ (53 + k)"
  shows "fl64 x = 2 ^ k * of_int (roundEven (x / 2 ^ k))"
proof -
  have p: "2 powr real_of_int (int (52 + k)) = 2 ^ (52 + k)"
    "2 powr (real_of_int (int (52 + k)) + 1) = 2 ^ (53 + k)"
    "2 powr (real_of_int (int (52 + k)) - 52) = 2 ^ k"
    by (simp_all add: powr_realpow [symmetric] add.commute)
  show ?thesis
    using fl64_at [of "int (52 + k)" x] assms unfolding p by simp
qed

lemma fl64_down:
  assumes "k \<le> 52" "2 ^ (52 - k) \<le> \<bar>x\<bar>" "\<bar>x\<bar> < 2 ^ (53 - k)"
  shows "fl64 x = of_int (roundEven (x * 2 ^ k)) / 2 ^ k"
proof -
  have p: "2 powr real_of_int (int (52 - k)) = 2 ^ (52 - k)"
    "2 powr (real_of_int (int (52 - k)) + 1) = 2 ^ (53 - k)"
    using assms(1) by (simp_all add: powr_realpow [symmetric] Suc_diff_le add.commute)
  have "real_of_int (int (52 - k)) - 52 = - real k" using assms(1) by simp
  then have q: "2 powr (real_of_int (int (52 - k)) - 52) = 1 / 2 ^ k"
    by (simp add: powr_minus powr_realpow inverse_eq_divide)
  show ?thesis
    using fl64_at [of "int (52 - k)" x] assms(2,3) unfolding p q by simp
qed

lemma c1732_value: "c1732 = 7800234554605699 / 4503599627370496"
  unfolding c1732_def by (subst fl64_down [where k = 52]) (simp_all add: roundEven_def Let_def)

lemma pitch64_value: "fl64 (BUBBLE_RADIUS * c1732) = 2437573298314281 / 70368744177664"
  unfolding c1732_value BUBBLE_RADIUS_def
  by (subst fl64_down [where k = 47]) (simp_all add: roundEven_def Let_def)

lemma getY64_big: "getY64 2251799825615359 = 78002345959316064"
proof -
  have 1: "fl64 (real_of_int 2251799825615359 * 20) = 45035996512307184"
    by (subst fl64_up [where k = 3]) (simp_all add: roundEven_def Let_def)
  have 2: "fl64 (45035996512307184 * c1732) = 78002345959316048"
    unfolding c1732_value by (subst fl64_up [where k = 4]) (simp_all add: roundEven_def Let_def)
  have 3: "fl64 (78002345959316048 + 20) = 78002345959316064"
    by (subst fl64_up [where k = 4]) (simp_all add: roundEven_def Let_def)
  show ?thesis unfolding getY64_def BUBBLE_RADIUS_def 1 2 3 ..
qed

lemma getRow64_big: "getRow64 78002345959316064 = 2251799825615360"
proof -
  have 1: "fl64 (78002345959316064 - 20) = 78002345959316048"
    by (subst fl64_up [where k = 4]) (simp_all add: roundEven_def Let_def)
  have 2: "fl64 (78002345959316048 / (2437573298314281 / 70368744177664)) = 4503599651230719 / 2"
    by (subst fl64_down [where k = 1]) (simp_all add: roundEven_def Let_def)
  show ?thesis
    unfolding getRow64_def pitch64_value unfolding BUBBLE_RADIUS_def 1 2
    by (simp add: round_def)
qed

lemma getX64_big: "getX64 0 4049577958237678 = 161983118329507168"
proof -
  have 1: "fl64 (real_of_int 4049577958237678 * 20) = 80991559164753568"
    by (subst fl64_up [where k = 4]) (simp_all add: roundEven_def Let_def)
  have 2: "fl64 (80991559164753568 * 2) = 161983118329507136"
    by (subst fl64_up [where k = 5]) (simp_all add: roundEven_def Let_def)
  have 3: "fl64 (161983118329507136 + 20) = 161983118329507168"
    by (subst fl64_up [where k = 5]) (simp_all add: roundEven_def Let_def)
  have 4: "fl64 (161983118329507168 + 0) = 161983118329507168"
    by (subst fl64_up [where k = 5]) (simp_all add: roundEven_def Let_def)
  show ?thesis unfolding getX64_def BUBBLE_RADIUS_def Let_def by (simp only: 1 2 3 4 mod_0 if_False simp_thms)
qed

lemma getCol64_big: "getCol64 161983118329507168 0 = 4049577958237679"
proof -
  have 1: "fl64 (161983118329507168 - 20) = 161983118329507136"
    by (subst fl64_up [where k = 5]) (simp_all add: roundEven_def Let_def)
  have 2: "fl64 (161983118329507136 - 0) = 161983118329507136"
    by (subst fl64_up [where k = 5]) (simp_all add: roundEven_def Let_def)
  have 3: "fl64 (20 * 2) = 40"
    by (subst fl64_down [where k = 47]) (simp_all add: roundEven_def Let_def)
  have 4: "fl64 (161983118329507136 / 40) = 8099155916475357 / 2"
    by (subst fl64_down [where k = 1]) (simp_all add: roundEven_def Let_def)
  show ?thesis unfolding getCol64_def BUBBLE_RADIUS_def Let_def
    by (simp only: 1 2 3 4 mod_0 if_False simp_thms) (simp add: round_def)
qed

lemma round_near:
  assumes "\<bar>q - real_of_int n\<bar> < 1 / 2"
  shows "round q = n"
  unfolding round_def using assms by linarith

lemma fl64_error_numeral: "\<bar>fl64 x - x\<bar> \<le> \<bar>x\<bar> / 9007199254740992"
  using fl64_error [of x] by simp

lemma fl64_int_value:
  assumes "x = real_of_int n" "\<bar>n\<bar> < 2 ^ 53"
  shows "fl64 x = x"
  unfolding assms(1) using assms(2) by (rule fl64_of_int)

lemma getRow64_getY64:
  assumes "0 \<le> row" "row \<le> 2 ^ 45"
  shows "getRow64 (getY64 row) = row"
proof -
  define r where "r = real_of_int row"
  have r: "0 \<le> r" "r \<le> 35184372088832" using assms by (simp_all add: r_def)
  have a0: "fl64 (real_of_int row * 20) = r * 20"
    unfolding r_def by (rule fl64_int_value [where n = "row * 20"]) (use assms in simp_all)
  define t where "t = fl64 (r * 20 * c1732)"
  define y where "y = fl64 (t + 20)"
  define s where "s = fl64 (y - 20)"
  define q where "q = fl64 (s / (2437573298314281 / 70368744177664))"
  have et: "\<bar>t - r * 20 * (7800234554605699 / 4503599627370496)\<bar>
        \<le> \<bar>r * 20 * (7800234554605699 / 4503599627370496)\<bar> / 9007199254740992"
    unfolding t_def c1732_value by (rule fl64_error_numeral)
  have ey: "\<bar>y - (t + 20)\<bar> \<le> \<bar>t + 20\<bar> / 9007199254740992"
    unfolding y_def by (rule fl64_error_numeral)
  have es: "\<bar>s - (y - 20)\<bar> \<le> \<bar>y - 20\<bar> / 9007199254740992"
    unfolding s_def by (rule fl64_error_numeral)
  have eq: "\<bar>q - s / (2437573298314281 / 70368744177664)\<bar>
        \<le> \<bar>s / (2437573298314281 / 70368744177664)\<bar> / 9007199254740992"
    unfolding q_def by (rule fl64_error_numeral)
  have t1: "\<bar>t - r * 20 * (7800234554605699 / 4503599627370496)\<bar> \<le> 1 / 4"
    using et r by argo
  have t2: "0 \<le> t" using et r by argo
  have t3: "t \<le> 2251799813685248" using t1 r by argo
  have ty: "\<bar>t + 20\<bar> = t + 20" using t2 by simp
  have y1: "\<bar>y - (t + 20)\<bar> \<le> 1 / 2" using ey t2 t3 unfolding ty by argo
  have y2: "19 \<le> y" using ey t2 t3 unfolding ty by argo
  have y3: "y \<le> 4503599627370496" using y1 t3 by argo
  have s1: "\<bar>s - (y - 20)\<bar> \<le> 1 / 2" using es y2 y3 by argo
  have sr: "\<bar>s - r * (2437573298314281 / 70368744177664)\<bar> \<le> 2"
    using t1 y1 s1 r by argo
  have sq: "\<bar>s / (2437573298314281 / 70368744177664) - r\<bar> \<le> 1 / 16"
    using sr by argo
  have "\<bar>q - s / (2437573298314281 / 70368744177664)\<bar> \<le> 1 / 16"
    using eq sq r by argo
  with sq have "\<bar>q - real_of_int row\<bar> < 1 / 2" unfolding r_def by argo
  then have "round q = row" by (rule round_near)
  then show ?thesis
    unfolding getRow64_def getY64_def pitch64_value
    unfolding BUBBLE_RADIUS_def a0 q_def s_def y_def t_def .
qed

lemma getX64_exact:
  assumes "0 \<le> col" "col \<le> 2 ^ 45"
  shows "getX64 row col = getX row col"
proof -
  have 1: "fl64 (real_of_int col * 20) = real_of_int col * 20"
    by (rule fl64_int_value [where n = "col * 20"]) (use assms in simp_all)
  have 2: "fl64 (real_of_int col * 20 * 2) = real_of_int col * 20 * 2"
    by (rule fl64_int_value [where n = "col * 40"]) (use assms in simp_all)
  have 3: "fl64 (real_of_int col * 20 * 2 + 20) = real_of_int col * 20 * 2 + 20"
    by (rule fl64_int_value [where n = "col * 40 + 20"]) (use assms in simp_all)
  have 4: "fl64 (real_of_int col * 20 * 2 + 20 + 20) = real_of_int col * 20 * 2 + 20 + 20"
    by (rule fl64_int_value [where n = "col * 40 + 40"]) (use assms in simp_all)
  have 5: "fl64 (real_of_int col * 20 * 2 + 20 + 0) = real_of_int col * 20 * 2 + 20 + 0"
    by (rule fl64_int_value [where n = "col * 40 + 20"]) (use assms in simp_all)
  show ?thesis
  proof (cases "row mod 2 = 0")
    case True
    then have i: "(if row mod 2 \<noteq> 0 then (20::real) else 0) = 0" by simp
    show ?thesis unfolding getX64_def getX_def Let_def BUBBLE_RADIUS_def 1 2 3 i 5 ..
  next
    case False
    then have i: "(if row mod 2 \<noteq> 0 then (20::real) else 0) = 20" by simp
    show ?thesis unfolding getX64_def getX_def Let_def BUBBLE_RADIUS_def 1 2 3 i 4 ..
  qed
qed

lemma getCol64_getX64:
  assumes "0 \<le> col" "col \<le> 2 ^ 45"
  shows "getCol64 (getX64 row col) row = col"
proof -
  have 3: "fl64 (20 * 2) = 40"
    by (subst fl64_down [where k = 47]) (simp_all add: roundEven_def Let_def)
  have c: "fl64 (real_of_int col) = real_of_int col"
    by (rule fl64_int_value [where n = col]) (use assms in simp_all)
  show ?thesis
  proof (cases "row mod 2 \<noteq> 0")
    case False
    have 1: "fl64 (real_of_int col * 20 * 2 + 20 + 0 - 20) = real_of_int col * 40"
      using fl64_int_value [where n = "col * 40" and x = "real_of_int col * 20 * 2 + 20 + 0 - 20"] assms
      by simp
    have 2: "fl64 (real_of_int col * 40 - 0) = real_of_int col * 40"
      using fl64_int_value [where n = "col * 40" and x = "real_of_int col * 40 - 0"] assms
      by simp
    have 4: "real_of_int col * 40 / 40 = real_of_int col" by simp
    from False have i: "(if row mod 2 \<noteq> 0 then (20::real) else 0) = 0" by simp
    show ?thesis
      unfolding getX64_exact [OF assms]
      unfolding getX_def getCol64_def Let_def BUBBLE_RADIUS_def i 1 2 3 4 c round_of_int ..
  next
    case True
    have 1: "fl64 (real_of_int col * 20 * 2 + 20 + 20 - 20) = real_of_int col * 40 + 20"
      using fl64_int_value [where n = "col * 40 + 20" and x = "real_of_int col * 20 * 2 + 20 + 20 - 20"] assms
      by simp
    have 2: "fl64 (real_of_int col * 40 + 20 - 20) = real_of_int col * 40"
      using fl64_int_value [where n = "col * 40" and x = "real_of_int col * 40 + 20 - 20"] assms
      by simp
    have 4: "real_of_int col * 40 / 40 = real_of_int col" by simp
    from True have i: "(if row mod 2 \<noteq> 0 then (20::real) else 0) = 20" by simp
    show ?thesis
      unfolding getX64_exact [OF assms]
      unfolding getX_def getCol64_def Let_def BUBBLE_RADIUS_def i 1 2 3 4 c round_of_int ..
  qed
qed

text \<open>
  C1, as the code has it. For every grid address with \<open>0 \<le> row \<le> 2^45\<close> and
  \<open>0 \<le> col \<le> 2^45\<close> the mapper round-trips exactly, in double precision as in exact
  arithmetic: the row of the pixel height of a row is that row, and the column of the pixel
  abscissa of a cell, read in the cell's row, is the cell's column.
\<close>

theorem coordinate_round_trip:
  "0 \<le> row \<Longrightarrow> row \<le> 2 ^ 45 \<Longrightarrow> 0 \<le> col \<Longrightarrow> col \<le> 2 ^ 45 \<Longrightarrow>
   getRow64 (getY64 row) = row \<and> getCol64 (getX64 row col) row = col \<and>
   getRow (getY row) = row \<and> getCol (getX row col) row = col"
  by (simp add: getRow64_getY64 getCol64_getX64 getRow_getY getCol_getX)

theorem coordinate_round_trip_witness:
  "getRow64 (getY64 5) = 5 \<and> getCol64 (getX64 5 6) 5 = 6 \<and>
   getRow (getY 5) = 5 \<and> getCol (getX 5 6) 5 = 6"
  using coordinate_round_trip [of 5 6] by simp

text \<open>
  Without the bound the round trip fails in double precision: row 2251799825615359 comes
  back as 2251799825615360, and column 4049577958237678 of row 0 as 4049577958237679.
\<close>

theorem coordinate_round_trip_counterexample:
  "getRow64 (getY64 2251799825615359) = 2251799825615360 \<and>
   getCol64 (getX64 0 4049577958237678) 0 = 4049577958237679"
  by (simp only: getY64_big getRow64_big getX64_big getCol64_big simp_thms)

subsection \<open>The flood fills\<close>

text \<open>The two flood fills of the source are the scheme at their own neighbour tests.\<close>

lemma findMatches_flood:
  "findMatches d b cur M = flood sameColorNear d b cur M"
  "findMatches_forEach d ns cur M = flood_forEach sameColorNear d ns cur M"
  by (induction d b cur M and d ns cur M rule: findMatches_findMatches_forEach.induct)
     (simp_all add: sameColorNear_def Let_def split: option.splits)

lemma traverse_flood:
  "traverse d b cur M = flood near d b cur M"
  "traverse_forEach d ns cur M = flood_forEach near d ns cur M"
  by (induction d b cur M and d ns cur M rule: traverse_traverse_forEach.induct)
     (simp_all add: near_def Let_def split: option.splits)

lemma flood_superset:
  "flood adj d b cur M = Some R \<Longrightarrow> insert (b_id b) M \<subseteq> R"
  "flood_forEach adj d ns cur M = Some R \<Longrightarrow> M \<subseteq> R \<and> b_id ` set ns \<subseteq> R"
proof (induction adj d b cur M and adj d ns cur M arbitrary: R and R rule: flood_flood_forEach.induct)
  case (4 adj d n ns cur M)
  from "4.prems" obtain M' where f: "flood adj d n cur M = Some M'"
    and g: "flood_forEach adj d ns cur M' = Some R"
    by (auto split: option.splits)
  from "4.IH"(1) [OF f] have "insert (b_id n) M \<subseteq> M'" .
  moreover from "4.IH"(2) [OF f g] have "M' \<subseteq> R \<and> b_id ` set ns \<subseteq> R" .
  ultimately show ?case by auto
qed auto

lemma card_Diff_insert_less:
  assumes "finite U" "i \<in> U" "i \<notin> M"
  shows "card (U - insert i M) < card (U - M)"
proof -
  have "U - insert i M \<subset> U - M" using assms by auto
  then show ?thesis using assms(1) by (simp add: psubset_card_mono)
qed

lemma card_Diff_mono:
  assumes "finite U" "M \<subseteq> M'"
  shows "card (U - insert i M') \<le> card (U - insert i M)"
  using assms by (intro card_mono) auto

lemma flood_returns:
  "card (b_id ` set cur - insert (b_id b) M) < d \<Longrightarrow> \<exists>R. flood adj d b cur M = Some R"
  "\<forall>n\<in>set ns. card (b_id ` set cur - insert (b_id n) M) < d \<Longrightarrow>
     \<exists>R. flood_forEach adj d ns cur M = Some R"
proof (induction adj d b cur M and adj d ns cur M rule: flood_flood_forEach.induct)
  case (1 adj bubble cur M)
  then show ?case by simp
next
  case (2 adj d bubble cur M)
  let ?U = "b_id ` set cur"
  let ?M1 = "insert (b_id bubble) M"
  have "card (?U - insert (b_id n) ?M1) < d"
    if "n \<in> set cur" "b_id n \<notin> ?M1" for n
  proof -
    have "card (?U - insert (b_id n) ?M1) < card (?U - ?M1)"
      using that by (intro card_Diff_insert_less) auto
    with "2.prems" show ?thesis by simp
  qed
  then have "\<exists>R. flood_forEach adj d (filter (\<lambda>b. b_id b \<notin> ?M1 \<and> adj b bubble) cur) cur ?M1 = Some R"
    by (intro "2.IH") auto
  then show ?case by simp
next
  case (3 adj d cur M)
  then show ?case by simp
next
  case (4 adj d n ns cur M)
  from "4.prems" have "card (b_id ` set cur - insert (b_id n) M) < d" by simp
  from "4.IH"(1) [OF this] obtain M' where f: "flood adj d n cur M = Some M'" by blast
  from flood_superset(1) [OF f] have sub: "M \<subseteq> M'" by auto
  have "\<forall>n'\<in>set ns. card (b_id ` set cur - insert (b_id n') M') < d"
  proof
    fix n' assume "n' \<in> set ns"
    with "4.prems" have "card (b_id ` set cur - insert (b_id n') M) < d" by simp
    moreover have "card (b_id ` set cur - insert (b_id n') M') \<le> card (b_id ` set cur - insert (b_id n') M)"
      using sub by (intro card_Diff_mono) auto
    ultimately show "card (b_id ` set cur - insert (b_id n') M') < d" by simp
  qed
  from "4.IH"(2) [OF f this] show ?case using f by simp
qed

lemma flood_sound:
  assumes closed: "\<And>x y. P x \<Longrightarrow> y \<in> set cur \<Longrightarrow> adj y x \<Longrightarrow> P y"
  shows "flood adj d b cur M = Some R \<Longrightarrow> P b \<Longrightarrow> R \<subseteq> M \<union> {b_id b} \<union> b_id ` {x \<in> set cur. P x}"
    and "flood_forEach adj d ns cur M = Some R \<Longrightarrow> \<forall>n\<in>set ns. n \<in> set cur \<and> P n \<Longrightarrow>
           R \<subseteq> M \<union> b_id ` {x \<in> set cur. P x}"
  using closed
proof (induction adj d b cur M and adj d ns cur M arbitrary: R and R rule: flood_flood_forEach.induct)
  case (1 adj bubble cur M)
  then show ?case by simp
next
  case (2 adj d bubble cur M)
  let ?M1 = "insert (b_id bubble) M"
  let ?ns = "filter (\<lambda>b. b_id b \<notin> ?M1 \<and> adj b bubble) cur"
  from "2.prems"(1) have r: "flood_forEach adj d ?ns cur ?M1 = Some R" by simp
  have "\<forall>n\<in>set ?ns. n \<in> set cur \<and> P n" using "2.prems"(2,3) by auto
  from "2.IH" [OF r this "2.prems"(3)] show ?case by auto
next
  case (3 adj d cur M)
  then show ?case by simp
next
  case (4 adj d n ns cur M)
  from "4.prems"(1) obtain M' where f: "flood adj d n cur M = Some M'"
    and g: "flood_forEach adj d ns cur M' = Some R"
    by (auto split: option.splits)
  from "4.prems"(2) have n: "n \<in> set cur" "P n" and ns: "\<forall>n\<in>set ns. n \<in> set cur \<and> P n" by auto
  from "4.IH"(1) [OF f n(2) "4.prems"(3)] have "M' \<subseteq> M \<union> {b_id n} \<union> b_id ` {x \<in> set cur. P x}" .
  moreover from "4.IH"(2) [OF f g ns "4.prems"(3)] have "R \<subseteq> M' \<union> b_id ` {x \<in> set cur. P x}" .
  ultimately show ?case using n by auto
qed

lemma flood_closed:
  assumes dist: "distinct (map b_id cur)"
  shows "flood adj d b cur M = Some R \<Longrightarrow> b \<in> set cur \<Longrightarrow> x \<in> set cur \<Longrightarrow> b_id x \<in> R \<Longrightarrow>
           b_id x \<notin> M \<Longrightarrow> y \<in> set cur \<Longrightarrow> adj y x \<Longrightarrow> b_id y \<in> R"
    and "flood_forEach adj d ns cur M = Some R \<Longrightarrow> set ns \<subseteq> set cur \<Longrightarrow> x \<in> set cur \<Longrightarrow> b_id x \<in> R \<Longrightarrow>
           b_id x \<notin> M \<Longrightarrow> y \<in> set cur \<Longrightarrow> adj y x \<Longrightarrow> b_id y \<in> R"
  using dist
proof (induction adj d b cur M and adj d ns cur M arbitrary: R x y and R x y rule: flood_flood_forEach.induct)
  case (1 adj bubble cur M)
  then show ?case by simp
next
  case (2 adj d bubble cur M)
  let ?M1 = "insert (b_id bubble) M"
  let ?ns = "filter (\<lambda>b. b_id b \<notin> ?M1 \<and> adj b bubble) cur"
  from "2.prems"(1) have r: "flood_forEach adj d ?ns cur ?M1 = Some R" by simp
  from flood_superset(2) [OF r] have sup: "?M1 \<subseteq> R" "b_id ` set ?ns \<subseteq> R" by auto
  show ?case
  proof (cases "b_id x = b_id bubble")
    case True
    have "inj_on b_id (set cur)" using "2.prems"(8) by (simp add: distinct_map)
    with True "2.prems"(2,3) have "x = bubble" by (auto dest: inj_onD)
    show ?thesis
    proof (cases "b_id y \<in> ?M1")
      case True
      with sup show ?thesis by auto
    next
      case False
      with "2.prems"(6,7) \<open>x = bubble\<close> have "y \<in> set ?ns" by simp
      with sup(2) show ?thesis by blast
    qed
  next
    case False
    with "2.prems"(5) have "b_id x \<notin> ?M1" by simp
    from "2.IH" [OF r _ "2.prems"(3,4) this "2.prems"(6,7,8)] show ?thesis by auto
  qed
next
  case (3 adj d cur M)
  then show ?case by simp
next
  case (4 adj d n ns cur M)
  from "4.prems"(1) obtain M' where f: "flood adj d n cur M = Some M'"
    and g: "flood_forEach adj d ns cur M' = Some R"
    by (auto split: option.splits)
  from flood_superset(2) [OF g] have sup: "M' \<subseteq> R" by simp
  from "4.prems"(2) have n: "n \<in> set cur" and ns: "set ns \<subseteq> set cur" by auto
  show ?case
  proof (cases "b_id x \<in> M'")
    case True
    from "4.IH"(1) [OF f n "4.prems"(3) True "4.prems"(5,6,7,8)] sup show ?thesis by auto
  next
    case False
    from "4.IH"(2) [OF f g ns "4.prems"(3,4) False "4.prems"(6,7,8)] show ?thesis .
  qed
qed

lemma cluster_subset: "x \<in> cluster cur seed \<Longrightarrow> seed \<in> set cur \<Longrightarrow> x \<in> set cur"
  by (induction rule: cluster.induct) auto

lemma findMatches_cluster:
  assumes "distinct (map b_id cur)" "seed \<in> set cur" "findMatches d seed cur {} = Some R"
  shows "R = b_id ` cluster cur seed"
proof
  have fl: "flood sameColorNear d seed cur {} = Some R" using assms(3) by (simp add: findMatches_flood)
  have "R \<subseteq> {} \<union> {b_id seed} \<union> b_id ` {x \<in> set cur. x \<in> cluster cur seed}"
    by (rule flood_sound(1) [OF _ fl]) (auto intro: cluster.intros)
  then show "R \<subseteq> b_id ` cluster cur seed" by (auto intro: cluster.seed)
  have "b_id x \<in> R" if "x \<in> cluster cur seed" for x
    using that
  proof (induction rule: cluster.induct)
    case seed
    from flood_superset(1) [OF fl] show ?case by simp
  next
    case (member x y)
    have "x \<in> set cur" using member(1) assms(2) by (rule cluster_subset)
    from flood_closed(1) [OF assms(1) fl assms(2) this member(4) _ member(2,3)] show ?case by simp
  qed
  then show "b_id ` cluster cur seed \<subseteq> R" by auto
qed

lemma getDistance_less_iff:
  "0 < r \<Longrightarrow> getDistance x1 y1 x2 y2 < r \<longleftrightarrow> (x2 - x1)\<^sup>2 + (y2 - y1)\<^sup>2 < r\<^sup>2"
proof -
  assume r: "0 < r"
  have "sqrt ((x2 - x1)\<^sup>2 + (y2 - y1)\<^sup>2) < sqrt (r\<^sup>2) \<longleftrightarrow> (x2 - x1)\<^sup>2 + (y2 - y1)\<^sup>2 < r\<^sup>2"
    by (rule real_sqrt_less_iff)
  with r show ?thesis by (simp add: getDistance_def)
qed

lemma card_ids_le: "card (b_id ` set cur - M) \<le> length cur"
proof -
  have "card (b_id ` set cur - M) \<le> card (b_id ` set cur)" by (intro card_mono) auto
  also have "\<dots> \<le> card (set cur)" by (intro card_image_le) simp
  also have "\<dots> \<le> length cur" by (rule card_length)
  finally show ?thesis .
qed

lemma findMatches_returns:
  assumes "length cur < depth"
  shows "\<exists>R. findMatches depth seed cur {} = Some R"
proof -
  have "card (b_id ` set cur - insert (b_id seed) {}) < depth"
    using card_ids_le [of cur "{b_id seed}"] assms by simp
  from flood_returns(1) [OF this] show ?thesis by (simp add: findMatches_flood)
qed

text \<open>Unfolding at a numeral depth, and the distance test without the square root.\<close>

lemma findMatches_numeral [simp]:
  "findMatches (numeral k) bubble cur M =
     findMatches_forEach (pred_numeral k)
       (filter (\<lambda>b. b_id b \<notin> insert (b_id bubble) M \<and> b_color b = b_color bubble \<and>
           getDistance (b_x b) (b_y b) (b_x bubble) (b_y bubble) < BUBBLE_RADIUS * 2.5) cur)
       cur (insert (b_id bubble) M)"
  by (simp add: numeral_eq_Suc Let_def)

lemma traverse_numeral [simp]:
  "traverse (numeral k) bubble cur M =
     traverse_forEach (pred_numeral k)
       (filter (\<lambda>b. b_id b \<notin> insert (b_id bubble) M \<and>
           getDistance (b_x b) (b_y b) (b_x bubble) (b_y bubble) < BUBBLE_RADIUS * 2.5) cur)
       cur (insert (b_id bubble) M)"
  by (simp add: numeral_eq_Suc Let_def)

lemma getDistance_less:
  "getDistance x1 y1 x2 y2 < r \<longleftrightarrow>
     0 < r \<and> (x2 - x1) * (x2 - x1) + (y2 - y1) * (y2 - y1) < r * r"
proof (cases "0 < r")
  case True
  then show ?thesis by (simp add: getDistance_less_iff power2_eq_square)
next
  case False
  have "0 \<le> getDistance x1 y1 x2 y2" by (simp add: getDistance_def)
  with False show ?thesis by simp
qed

text \<open>
  C8. For every seed and every field, with the depth bound above the size of the field,
  findMatches returns, and every identifier in the returned set is the seed's or that of a
  field bubble of the seed's colour; when the identifiers of the field are distinct and the
  seed is in the field, every field bubble whose identifier is returned has the seed's colour.
\<close>

theorem findMatches_one_color:
  assumes "length cur < depth"
  shows "\<exists>R. findMatches depth seed cur {} = Some R \<and>
           (\<forall>i\<in>R. i = b_id seed \<or> (\<exists>b\<in>set cur. b_id b = i \<and> b_color b = b_color seed)) \<and>
           (distinct (map b_id cur) \<and> seed \<in> set cur \<longrightarrow>
              (\<forall>b\<in>set cur. b_id b \<in> R \<longrightarrow> b_color b = b_color seed))"
proof -
  from findMatches_returns [OF assms] obtain R where R: "findMatches depth seed cur {} = Some R" by blast
  then have fl: "flood sameColorNear depth seed cur {} = Some R" by (simp add: findMatches_flood)
  have sub: "R \<subseteq> {} \<union> {b_id seed} \<union> b_id ` {x \<in> set cur. b_color x = b_color seed}"
    by (rule flood_sound(1) [OF _ fl]) (auto simp: sameColorNear_def)
  then have one: "\<forall>i\<in>R. i = b_id seed \<or> (\<exists>b\<in>set cur. b_id b = i \<and> b_color b = b_color seed)"
    by auto
  have two: "b_color b = b_color seed"
    if "distinct (map b_id cur)" "seed \<in> set cur" "b \<in> set cur" "b_id b \<in> R" for b
  proof -
    have inj: "inj_on b_id (set cur)" using that(1) by (simp add: distinct_map)
    from one that(4) consider "b_id b = b_id seed"
      | b' where "b' \<in> set cur" "b_id b' = b_id b" "b_color b' = b_color seed" by blast
    then show ?thesis
    proof cases
      case 1
      with inj that(2,3) have "b = seed" by (auto dest: inj_onD)
      then show ?thesis by simp
    next
      case 2
      with inj that(3) have "b' = b" by (auto dest: inj_onD)
      with 2 show ?thesis by simp
    qed
  qed
  from R one two show ?thesis by blast
qed

theorem findMatches_one_color_witness:
  "findMatches 4 \<lparr>b_x = 60, b_y = 20, b_color = ''#FF5555'', b_id = ''new-3''\<rparr>
     [\<lparr>b_x = 20, b_y = 20, b_color = ''#FF5555'', b_id = ''0-0-0.1''\<rparr>,
      \<lparr>b_x = 100, b_y = 20, b_color = ''#55FF55'', b_id = ''0-2-0.7''\<rparr>,
      \<lparr>b_x = 60, b_y = 20, b_color = ''#FF5555'', b_id = ''new-3''\<rparr>] {}
   = Some {''new-3'', ''0-0-0.1''}"
  using findMatches_one_color [of
     "[\<lparr>b_x = 20, b_y = 20, b_color = ''#FF5555'', b_id = ''0-0-0.1''\<rparr>,
      \<lparr>b_x = 100, b_y = 20, b_color = ''#55FF55'', b_id = ''0-2-0.7''\<rparr>,
      \<lparr>b_x = 60, b_y = 20, b_color = ''#FF5555'', b_id = ''new-3''\<rparr>]" 4
     "\<lparr>b_x = 60, b_y = 20, b_color = ''#FF5555'', b_id = ''new-3''\<rparr>"]
  by (simp add: BUBBLE_RADIUS_def getDistance_less insert_commute)

text \<open>
  C4. For every field, with the depth bound at least the size of the field,
  findFloatingBubbles returns, and no bubble of the ceiling row (\<open>y \<le> 2 * radius\<close>) is in
  its result.
\<close>

theorem ceiling_row_grounded:
  assumes "length cur \<le> depth"
  shows "\<exists>floating. findFloatingBubbles depth cur = Some floating \<and>
           (\<forall>b\<in>set cur. b_y b \<le> BUBBLE_RADIUS * 2 \<longrightarrow> b \<notin> set floating) \<and>
           (\<forall>b\<in>set floating. \<not> b_y b \<le> BUBBLE_RADIUS * 2)"
proof -
  let ?top = "filter (\<lambda>b. b_y b \<le> BUBBLE_RADIUS * 2) cur"
  have "\<forall>n\<in>set ?top. card (b_id ` set cur - insert (b_id n) {}) < depth"
  proof
    fix n assume "n \<in> set ?top"
    then have "b_id n \<in> b_id ` set cur" by auto
    then have "card (b_id ` set cur - insert (b_id n) {}) < card (b_id ` set cur - {})"
      by (intro card_Diff_insert_less) auto
    also have "\<dots> \<le> length cur" by (rule card_ids_le)
    finally show "card (b_id ` set cur - insert (b_id n) {}) < depth" using assms by simp
  qed
  from flood_returns(2) [OF this] obtain R where R: "flood_forEach near depth ?top cur {} = Some R"
    by blast
  from flood_superset(2) [OF R] have "b_id ` set ?top \<subseteq> R" by simp
  then have "\<forall>b\<in>set cur. b_y b \<le> BUBBLE_RADIUS * 2 \<longrightarrow> b_id b \<in> R" by auto
  moreover have "findFloatingBubbles depth cur = Some (filter (\<lambda>b. b_id b \<notin> R) cur)"
    using R by (simp add: findFloatingBubbles_def traverse_flood)
  ultimately show ?thesis by auto
qed

theorem ceiling_row_grounded_witness:
  "findFloatingBubbles 3
     [\<lparr>b_x = 20, b_y = 20, b_color = ''#FF5555'', b_id = ''0-0-0.1''\<rparr>,
      \<lparr>b_x = 40, b_y = 54.64, b_color = ''#55FF55'', b_id = ''1-0-0.7''\<rparr>,
      \<lparr>b_x = 180, b_y = 89.28, b_color = ''#FF5555'', b_id = ''2-4-0.3''\<rparr>]
   = Some [\<lparr>b_x = 180, b_y = 89.28, b_color = ''#FF5555'', b_id = ''2-4-0.3''\<rparr>]"
  using ceiling_row_grounded [of
     "[\<lparr>b_x = 20, b_y = 20, b_color = ''#FF5555'', b_id = ''0-0-0.1''\<rparr>,
      \<lparr>b_x = 40, b_y = 54.64, b_color = ''#55FF55'', b_id = ''1-0-0.7''\<rparr>,
      \<lparr>b_x = 180, b_y = 89.28, b_color = ''#FF5555'', b_id = ''2-4-0.3''\<rparr>]" 3]
  by (simp add: findFloatingBubbles_def BUBBLE_RADIUS_def getDistance_less)

subsection \<open>The row pitch\<close>

lemma sqrt3_gt: "1.732 < sqrt 3"
  by (rule real_less_rsqrt) (simp add: power2_eq_square)

text \<open>
  C9, as the code has it. The row pitch is \<open>radius * 1.732\<close>, which is less than
  \<open>radius * sqrt 3\<close>: for every row, \<open>getY row = row * (radius * 1.732) + radius\<close>, two
  consecutive rows lie \<open>radius * 1.732\<close> apart, and for every \<open>y\<close>,
  \<open>getRow y = round ((y - radius) / (radius * 1.732))\<close>.
\<close>

theorem row_pitch:
  "getY row = real_of_int row * (BUBBLE_RADIUS * 1.732) + BUBBLE_RADIUS \<and>
   getRow y = round ((y - BUBBLE_RADIUS) / (BUBBLE_RADIUS * 1.732)) \<and>
   getY (row + 1) - getY row = BUBBLE_RADIUS * 1.732 \<and>
   BUBBLE_RADIUS * 1.732 < BUBBLE_RADIUS * sqrt 3"
  using sqrt3_gt by (simp add: getY_def getRow_def BUBBLE_RADIUS_def algebra_simps)

theorem row_pitch_witness:
  "getY 3 = 123.92 \<and> getRow 123.92 = 3 \<and> getY (3 + 1) - getY 3 = 34.64"
  using row_pitch [of 3 "123.92"] by (simp add: BUBBLE_RADIUS_def)

text \<open>
  With \<open>sqrt 3\<close> for the pitch the height of row 1 is not the one the code computes, and the
  row of \<open>y = 37.32\<close> is 0 and not the 1 the code returns.
\<close>

theorem row_pitch_counterexample:
  "getY 1 \<noteq> 1 * BUBBLE_RADIUS * sqrt 3 + BUBBLE_RADIUS \<and>
   getRow 37.32 \<noteq> round ((37.32 - BUBBLE_RADIUS) / (BUBBLE_RADIUS * sqrt 3))"
proof -
  have a: "getY 1 \<noteq> 1 * BUBBLE_RADIUS * sqrt 3 + BUBBLE_RADIUS"
    using sqrt3_gt by (simp add: getY_def BUBBLE_RADIUS_def)
  have b: "getRow 37.32 = 1"
    by (simp add: getRow_def BUBBLE_RADIUS_def round_def)
  have "0 \<le> (37.32 - 20) / (20 * sqrt 3) + 1/2" by simp
  moreover have "(37.32 - 20) / (20 * sqrt 3) + 1/2 < 1" using sqrt3_gt by (simp add: field_simps)
  ultimately have "\<lfloor>(37.32 - 20) / (20 * sqrt 3) + 1/2\<rfloor> = 0" by linarith
  then have c: "round ((37.32 - BUBBLE_RADIUS) / (BUBBLE_RADIUS * sqrt 3)) = 0"
    by (simp add: round_def BUBBLE_RADIUS_def)
  from a b c show ?thesis by simp
qed

subsection \<open>The initial field\<close>

lemma initialBubbles_rows:
  "initialBubbles colorAt idAt =
     concat (map (\<lambda>row. map (\<lambda>col. \<lparr>b_x = getX row col, b_y = getY row,
                                     b_color = colorAt row col, b_id = idAt row col\<rparr>)
                          [0..(if row mod 2 = 0 then 7 else 6)]) [0..5])"
  by (simp add: initialBubbles_def GRID_COLS_def upto_rec1 Let_def)

text \<open>
  C10. initGame produces the six rows 0 to 5 in order, row by row and column by column, with
  8 bubbles on each even row and 7 on each odd row, 45 in all, each at its grid centre
  \<open>(getX row col, getY row)\<close>; the score is 0, there is no projectile and the game state
  is playing.
\<close>

theorem initGame_field:
  "bubblesRef (initGame colorAt idAt st) =
     concat (map (\<lambda>row. map (\<lambda>col. \<lparr>b_x = getX row col, b_y = getY row,
                                     b_color = colorAt row col, b_id = idAt row col\<rparr>)
                          [0..(if row mod 2 = 0 then 7 else 6)]) [0..5]) \<and>
   length (bubblesRef (initGame colorAt idAt st)) = 45 \<and>
   (\<forall>row\<in>set [0..5]. length (filter (\<lambda>b. getRow (b_y b) = row) (bubblesRef (initGame colorAt idAt st)))
       = (if row mod 2 = 0 then 8 else 7)) \<and>
   (\<forall>b\<in>set (bubblesRef (initGame colorAt idAt st)). getRow (b_y b) \<in> set [0..5]) \<and>
   score (initGame colorAt idAt st) = 0 \<and>
   projectileRef (initGame colorAt idAt st) = None \<and>
   gameState (initGame colorAt idAt st) = Playing"
proof -
  have 1: "bubblesRef (initGame colorAt idAt st) = initialBubbles colorAt idAt"
    by (simp add: initGame_def)
  have 2: "length (initialBubbles colorAt idAt) = 45"
    by (simp add: initialBubbles_rows upto_rec1)
  have 3: "\<forall>row\<in>set [0..5]. length (filter (\<lambda>b. getRow (b_y b) = row) (initialBubbles colorAt idAt))
       = (if row mod 2 = 0 then 8 else 7)"
    by (simp add: initialBubbles_rows upto_rec1 getRow_getY)
  have 4: "\<forall>b\<in>set (initialBubbles colorAt idAt). getRow (b_y b) \<in> set [0..5]"
    by (simp add: initialBubbles_rows upto_rec1 getRow_getY)
  show ?thesis
    unfolding 1 using 2 3 4 by (simp add: initialBubbles_rows initGame_def)
qed

theorem initGame_field_witness:
  "length (bubblesRef (initGame (\<lambda>row col. ''#FF5555'') (\<lambda>row col. ''id'')
      \<lparr>score = 70, gameState = Gameover, bubblesRef = [], projectileRef = None, nextColor = ''#55FF55''\<rparr>)) = 45 \<and>
   score (initGame (\<lambda>row col. ''#FF5555'') (\<lambda>row col. ''id'')
      \<lparr>score = 70, gameState = Gameover, bubblesRef = [], projectileRef = None, nextColor = ''#55FF55''\<rparr>) = 0 \<and>
   gameState (initGame (\<lambda>row col. ''#FF5555'') (\<lambda>row col. ''id'')
      \<lparr>score = 70, gameState = Gameover, bubblesRef = [], projectileRef = None, nextColor = ''#55FF55''\<rparr>) = Playing"
  using initGame_field [of "\<lambda>row col. ''#FF5555''" "\<lambda>row col. ''id''"
      "\<lparr>score = 70, gameState = Gameover, bubblesRef = [], projectileRef = None, nextColor = ''#55FF55''\<rparr>"]
  by blast

subsection \<open>Placements\<close>

lemma findFloatingBubbles_returns:
  assumes "length cur \<le> depth"
  shows "\<exists>C. traverse_forEach depth (filter (\<lambda>b. b_y b \<le> BUBBLE_RADIUS * 2) cur) cur {} = Some C \<and>
             findFloatingBubbles depth cur = Some (filter (\<lambda>b. b_id b \<notin> C) cur)"
proof -
  let ?top = "filter (\<lambda>b. b_y b \<le> BUBBLE_RADIUS * 2) cur"
  have "\<forall>n\<in>set ?top. card (b_id ` set cur - insert (b_id n) {}) < depth"
  proof
    fix n assume "n \<in> set ?top"
    then have "b_id n \<in> b_id ` set cur" by auto
    then have "card (b_id ` set cur - insert (b_id n) {}) < card (b_id ` set cur - {})"
      by (intro card_Diff_insert_less) auto
    also have "\<dots> \<le> length cur" by (rule card_ids_le)
    finally show "card (b_id ` set cur - insert (b_id n) {}) < depth" using assms by simp
  qed
  from flood_returns(2) [OF this] obtain R where R: "flood_forEach near depth ?top cur {} = Some R"
    by blast
  then show ?thesis by (simp add: findFloatingBubbles_def traverse_flood)
qed

lemma floating_removed_length:
  "length (filter (\<lambda>b. b_id b \<notin> set (map b_id (filter (\<lambda>b. b_id b \<notin> C) cur))) cur)
     + length (filter (\<lambda>b. b_id b \<notin> C) cur) = length cur"
proof -
  have "filter (\<lambda>b. b_id b \<notin> set (map b_id (filter (\<lambda>b. b_id b \<notin> C) cur))) cur
        = filter (\<lambda>b. \<not> b_id b \<notin> C) cur"
    by (rule filter_cong) auto
  then show ?thesis
    using sum_length_filter_compl [of "\<lambda>b. b_id b \<notin> C" cur] by simp
qed

lemma cluster_card:
  assumes "distinct (map b_id cur)" "seed \<in> set cur" "findMatches d seed cur {} = Some R"
  shows "card (cluster cur seed) = card R"
    and "filter (\<lambda>b. b_id b \<notin> R) cur = filter (\<lambda>b. b \<notin> cluster cur seed) cur"
    and "length (filter (\<lambda>b. b \<notin> cluster cur seed) cur) + card (cluster cur seed) = length cur"
proof -
  have inj: "inj_on b_id (set cur)" using assms(1) by (simp add: distinct_map)
  have sub: "cluster cur seed \<subseteq> set cur" using assms(2) by (auto dest: cluster_subset)
  have R: "R = b_id ` cluster cur seed" using assms by (rule findMatches_cluster)
  have "inj_on b_id (cluster cur seed)" using inj sub by (rule inj_on_subset)
  then show "card (cluster cur seed) = card R" unfolding R by (simp add: card_image)
  show eq: "filter (\<lambda>b. b_id b \<notin> R) cur = filter (\<lambda>b. b \<notin> cluster cur seed) cur"
  proof (rule filter_cong [OF refl])
    fix b assume b: "b \<in> set cur"
    show "(b_id b \<notin> R) = (b \<notin> cluster cur seed)"
      unfolding R using inj b sub by (auto dest: inj_onD)
  qed
  have d: "distinct cur" using assms(1) by (simp add: distinct_map)
  have "length (filter (\<lambda>b. b \<in> cluster cur seed) cur) = card (cluster cur seed)"
  proof -
    have "{b. b \<in> cluster cur seed} \<inter> set cur = cluster cur seed" using sub by auto
    with distinct_length_filter [OF d, of "\<lambda>b. b \<in> cluster cur seed"] show ?thesis by simp
  qed
  with sum_length_filter_compl [of "\<lambda>b. b \<in> cluster cur seed" cur]
  show "length (filter (\<lambda>b. b \<notin> cluster cur seed) cur) + card (cluster cur seed) = length cur"
    by simp
qed

lemma endPlacement_fields [simp]:
  "bubblesRef (endPlacement st) = bubblesRef st"
  "score (endPlacement st) = score st"
  "projectileRef (endPlacement st) = None"
  "gameState (endPlacement st) =
     (if (\<exists>b\<in>set (bubblesRef st). b_y b > CANVAS_HEIGHT - 100) then Gameover else gameState st)"
  by (simp_all add: endPlacement_def Let_def)

text \<open>The flood fills of a placement return, and the placement has one of two shapes.\<close>

lemma placement_floods:
  assumes depth: "length (bubblesRef st) < depth"
  shows "\<exists>R C. findMatches depth (newBubbleOf newId p st) (bubblesRef st @ [newBubbleOf newId p st]) {} = Some R \<and>
           traverse_forEach depth
               (filter (\<lambda>b. b_y b \<le> BUBBLE_RADIUS * 2)
                  (filter (\<lambda>b. b_id b \<notin> R) (bubblesRef st @ [newBubbleOf newId p st])))
               (filter (\<lambda>b. b_id b \<notin> R) (bubblesRef st @ [newBubbleOf newId p st])) {} = Some C \<and>
           findFloatingBubbles depth (filter (\<lambda>b. b_id b \<notin> R) (bubblesRef st @ [newBubbleOf newId p st]))
             = Some (filter (\<lambda>b. b_id b \<notin> C) (filter (\<lambda>b. b_id b \<notin> R) (bubblesRef st @ [newBubbleOf newId p st])))"
proof -
  let ?nb = "newBubbleOf newId p st"
  let ?up = "bubblesRef st @ [?nb]"
  have "card (b_id ` set ?up - insert (b_id ?nb) {}) < depth"
  proof -
    have "card (b_id ` set ?up - insert (b_id ?nb) {}) \<le> card (b_id ` set (bubblesRef st))"
      by (intro card_mono) auto
    also have "\<dots> \<le> length (bubblesRef st)"
      using card_ids_le [of "bubblesRef st" "{}"] by simp
    finally show ?thesis using depth by simp
  qed
  from flood_returns(1) [OF this] obtain R where R: "findMatches depth ?nb ?up {} = Some R"
    by (auto simp: findMatches_flood)
  from flood_superset(1) [of sameColorNear depth ?nb ?up "{}" R] R have nbR: "b_id ?nb \<in> R"
    by (simp add: findMatches_flood)
  let ?am = "filter (\<lambda>b. b_id b \<notin> R) ?up"
  have "?am = filter (\<lambda>b. b_id b \<notin> R) (bubblesRef st)" using nbR by simp
  then have "length ?am \<le> length (bubblesRef st)" by simp
  with depth have "length ?am \<le> depth" by simp
  from findFloatingBubbles_returns [OF this] obtain C where
    C: "traverse_forEach depth (filter (\<lambda>b. b_y b \<le> BUBBLE_RADIUS * 2) ?am) ?am {} = Some C"
       "findFloatingBubbles depth ?am = Some (filter (\<lambda>b. b_id b \<notin> C) ?am)" by blast
  from R C show ?thesis by blast
qed

lemma placeBubble_returns:
  assumes depth: "length (bubblesRef st) < depth"
  shows "\<exists>R. findMatches depth (newBubbleOf newId p st) (bubblesRef st @ [newBubbleOf newId p st]) {} = Some R \<and>
     (if 3 \<le> card R then
        \<exists>C. traverse_forEach depth
               (filter (\<lambda>b. b_y b \<le> BUBBLE_RADIUS * 2)
                  (filter (\<lambda>b. b_id b \<notin> R) (bubblesRef st @ [newBubbleOf newId p st])))
               (filter (\<lambda>b. b_id b \<notin> R) (bubblesRef st @ [newBubbleOf newId p st])) {} = Some C \<and>
           findFloatingBubbles depth (filter (\<lambda>b. b_id b \<notin> R) (bubblesRef st @ [newBubbleOf newId p st]))
             = Some (filter (\<lambda>b. b_id b \<notin> C) (filter (\<lambda>b. b_id b \<notin> R) (bubblesRef st @ [newBubbleOf newId p st]))) \<and>
           placeBubble depth newId p st =
             Some (endPlacement (st\<lparr>bubblesRef :=
                      filter (\<lambda>b. b_id b \<notin> set (map b_id (filter (\<lambda>b. b_id b \<notin> C) (filter (\<lambda>b. b_id b \<notin> R) (bubblesRef st @ [newBubbleOf newId p st])))))
                        (filter (\<lambda>b. b_id b \<notin> R) (bubblesRef st @ [newBubbleOf newId p st])),
                    score := score st + int (card R) * 10
                       + int (length (filter (\<lambda>b. b_id b \<notin> C) (filter (\<lambda>b. b_id b \<notin> R) (bubblesRef st @ [newBubbleOf newId p st])))) * 20\<rparr>))
      else placeBubble depth newId p st =
             Some (endPlacement (st\<lparr>bubblesRef := bubblesRef st @ [newBubbleOf newId p st]\<rparr>)))"
proof -
  from placement_floods [OF depth, of newId p] obtain R C where
    R: "findMatches depth (newBubbleOf newId p st) (bubblesRef st @ [newBubbleOf newId p st]) {} = Some R" and
    C: "traverse_forEach depth
               (filter (\<lambda>b. b_y b \<le> BUBBLE_RADIUS * 2)
                  (filter (\<lambda>b. b_id b \<notin> R) (bubblesRef st @ [newBubbleOf newId p st])))
               (filter (\<lambda>b. b_id b \<notin> R) (bubblesRef st @ [newBubbleOf newId p st])) {} = Some C"
       "findFloatingBubbles depth (filter (\<lambda>b. b_id b \<notin> R) (bubblesRef st @ [newBubbleOf newId p st]))
             = Some (filter (\<lambda>b. b_id b \<notin> C) (filter (\<lambda>b. b_id b \<notin> R) (bubblesRef st @ [newBubbleOf newId p st])))"
    by blast
  show ?thesis
  proof (cases "3 \<le> card R")
    case True
    with R C show ?thesis by (simp add: placeBubble_def Let_def)
  next
    case False
    with R show ?thesis by (simp add: placeBubble_def Let_def)
  qed
qed

lemma placeBubble_end:
  assumes depth: "length (bubblesRef st) < depth"
  shows "\<exists>X. placeBubble depth newId p st = Some (endPlacement X) \<and> gameState X = gameState st"
proof -
  from placement_floods [OF depth, of newId p] obtain R C where
    R: "findMatches depth (newBubbleOf newId p st) (bubblesRef st @ [newBubbleOf newId p st]) {} = Some R" and
    C: "findFloatingBubbles depth (filter (\<lambda>b. b_id b \<notin> R) (bubblesRef st @ [newBubbleOf newId p st]))
             = Some (filter (\<lambda>b. b_id b \<notin> C) (filter (\<lambda>b. b_id b \<notin> R) (bubblesRef st @ [newBubbleOf newId p st])))"
    by blast
  show ?thesis
  proof (cases "3 \<le> card R")
    case True
    show ?thesis
      unfolding placeBubble_def Let_def R option.case
      apply (simp only: True if_True C option.case option.map)
      apply (rule exI, rule conjI, rule refl)
      apply simp
      done
  next
    case False
    show ?thesis
      unfolding placeBubble_def Let_def R option.case
      apply (simp only: False if_False option.map)
      apply (rule exI, rule conjI, rule refl)
      apply simp
      done
  qed
qed

text \<open>The definitions unfolded to evaluate the grid helpers on the example states.\<close>

lemmas eval_simps =
  newBubbleOf_def resolveCell_def isOccupied_def getRow_def getCol_def getX_def getY_def
  BUBBLE_RADIUS_def CANVAS_HEIGHT_def CANVAS_WIDTH_def GRID_COLS_def round_def Let_def
  getDistance_less

lemma newBubble_pair:
  "newBubbleOf ''new-7'' shotA fieldPair = \<lparr>b_x = 40, b_y = 54.64, b_color = ''#FF5555'', b_id = ''new-7''\<rparr>"
  by (simp add: eval_simps shotA_def fieldPair_def)

lemma newBubble_triple:
  "newBubbleOf ''new-7'' shotA fieldTriple = \<lparr>b_x = 40, b_y = 54.64, b_color = ''#FF5555'', b_id = ''new-7''\<rparr>"
  by (simp add: eval_simps shotA_def fieldTriple_def)

lemma matches_pair:
  "findMatches 5 (newBubbleOf ''new-7'' shotA fieldPair)
     (bubblesRef fieldPair @ [newBubbleOf ''new-7'' shotA fieldPair]) {} = Some {''new-7'', ''0-0-0.1''}"
  unfolding newBubble_pair by (simp add: fieldPair_def BUBBLE_RADIUS_def getDistance_less insert_commute)

lemma matches_triple:
  "findMatches 5 (newBubbleOf ''new-7'' shotA fieldTriple)
     (bubblesRef fieldTriple @ [newBubbleOf ''new-7'' shotA fieldTriple]) {} = Some {''new-7'', ''0-0-0.1'', ''0-1-0.7''}"
  unfolding newBubble_triple by (simp add: fieldTriple_def BUBBLE_RADIUS_def getDistance_less insert_commute)

lemma distinct_pair: "distinct (map b_id (bubblesRef fieldPair @ [newBubbleOf ''new-7'' shotA fieldPair]))"
  unfolding newBubble_pair by (simp add: fieldPair_def)

lemma distinct_triple: "distinct (map b_id (bubblesRef fieldTriple @ [newBubbleOf ''new-7'' shotA fieldTriple]))"
  unfolding newBubble_triple by (simp add: fieldTriple_def)

lemma cluster_pair:
  "card (cluster (bubblesRef fieldPair @ [newBubbleOf ''new-7'' shotA fieldPair])
           (newBubbleOf ''new-7'' shotA fieldPair)) = 2"
  using cluster_card(1) [OF distinct_pair _ matches_pair] by simp

lemma cluster_triple:
  "card (cluster (bubblesRef fieldTriple @ [newBubbleOf ''new-7'' shotA fieldTriple])
           (newBubbleOf ''new-7'' shotA fieldTriple)) = 3"
  using cluster_card(1) [OF distinct_triple _ matches_triple] by simp

text \<open>
  C3. In a placement, with the depth bound above the size of the field, findMatches returns
  a set of identifiers; when the identifiers of the field are distinct it is the set of
  identifiers of the connected same-colour set of the placed bubble. When that set has
  exactly 2 members the placement returns and the field is the old field followed by the
  placed bubble (nothing is removed); when it has exactly 3 members the placement returns
  and no bubble with one of these identifiers is left in the field.
\<close>

theorem match_threshold:
  assumes "length (bubblesRef st) < depth"
  shows "\<exists>R. findMatches depth (newBubbleOf newId p st) (bubblesRef st @ [newBubbleOf newId p st]) {} = Some R \<and>
           (distinct (map b_id (bubblesRef st @ [newBubbleOf newId p st])) \<longrightarrow>
              R = b_id ` cluster (bubblesRef st @ [newBubbleOf newId p st]) (newBubbleOf newId p st) \<and>
              card R = card (cluster (bubblesRef st @ [newBubbleOf newId p st]) (newBubbleOf newId p st))) \<and>
           (card R = 2 \<longrightarrow>
              (\<exists>st'. placeBubble depth newId p st = Some st' \<and>
                     bubblesRef st' = bubblesRef st @ [newBubbleOf newId p st])) \<and>
           (card R = 3 \<longrightarrow>
              (\<exists>st'. placeBubble depth newId p st = Some st' \<and>
                     (\<forall>b\<in>set (bubblesRef st'). b_id b \<notin> R)))"
proof -
  let ?nb = "newBubbleOf newId p st"
  let ?up = "bubblesRef st @ [?nb]"
  from placeBubble_returns [OF assms(1), of newId p] obtain R where
    R: "findMatches depth ?nb ?up {} = Some R" and
    pl: "if 3 \<le> card R then
        \<exists>C. traverse_forEach depth
               (filter (\<lambda>b. b_y b \<le> BUBBLE_RADIUS * 2) (filter (\<lambda>b. b_id b \<notin> R) ?up))
               (filter (\<lambda>b. b_id b \<notin> R) ?up) {} = Some C \<and>
           findFloatingBubbles depth (filter (\<lambda>b. b_id b \<notin> R) ?up)
             = Some (filter (\<lambda>b. b_id b \<notin> C) (filter (\<lambda>b. b_id b \<notin> R) ?up)) \<and>
           placeBubble depth newId p st =
             Some (endPlacement (st\<lparr>bubblesRef :=
                      filter (\<lambda>b. b_id b \<notin> set (map b_id (filter (\<lambda>b. b_id b \<notin> C) (filter (\<lambda>b. b_id b \<notin> R) ?up))))
                        (filter (\<lambda>b. b_id b \<notin> R) ?up),
                    score := score st + int (card R) * 10
                       + int (length (filter (\<lambda>b. b_id b \<notin> C) (filter (\<lambda>b. b_id b \<notin> R) ?up))) * 20\<rparr>))
      else placeBubble depth newId p st = Some (endPlacement (st\<lparr>bubblesRef := ?up\<rparr>))"
    by blast
  have mem: "?nb \<in> set ?up" by simp
  have link: "R = b_id ` cluster ?up ?nb \<and> card R = card (cluster ?up ?nb)"
    if "distinct (map b_id ?up)"
    using findMatches_cluster [OF that mem R] cluster_card(1) [OF that mem R] by simp
  have two: "\<exists>st'. placeBubble depth newId p st = Some st' \<and> bubblesRef st' = ?up"
    if "card R = 2"
  proof -
    from that have "\<not> 3 \<le> card R" by simp
    with pl have "placeBubble depth newId p st = Some (endPlacement (st\<lparr>bubblesRef := ?up\<rparr>))" by simp
    then show ?thesis by simp
  qed
  have three: "\<exists>st'. placeBubble depth newId p st = Some st' \<and> (\<forall>b\<in>set (bubblesRef st'). b_id b \<notin> R)"
    if "card R = 3"
  proof -
    from that have "3 \<le> card R" by simp
    with pl obtain C where
      "placeBubble depth newId p st =
             Some (endPlacement (st\<lparr>bubblesRef :=
                      filter (\<lambda>b. b_id b \<notin> set (map b_id (filter (\<lambda>b. b_id b \<notin> C) (filter (\<lambda>b. b_id b \<notin> R) ?up))))
                        (filter (\<lambda>b. b_id b \<notin> R) ?up),
                    score := score st + int (card R) * 10
                       + int (length (filter (\<lambda>b. b_id b \<notin> C) (filter (\<lambda>b. b_id b \<notin> R) ?up))) * 20\<rparr>))"
      by auto
    moreover have "\<forall>b\<in>set (bubblesRef (endPlacement (st\<lparr>bubblesRef := filter G (filter (\<lambda>b. b_id b \<notin> R) xs), score := S\<rparr>))).
                     b_id b \<notin> R" for G xs S
      by simp
    ultimately show ?thesis by (intro exI conjI) assumption
  qed
  from R link two three show ?thesis by blast
qed

theorem match_threshold_witness:
  "card (cluster (bubblesRef fieldPair @ [newBubbleOf ''new-7'' shotA fieldPair])
           (newBubbleOf ''new-7'' shotA fieldPair)) = 2 \<and>
   map_option bubblesRef (placeBubble 5 ''new-7'' shotA fieldPair) =
     Some (bubblesRef fieldPair @ [\<lparr>b_x = 40, b_y = 54.64, b_color = ''#FF5555'', b_id = ''new-7''\<rparr>]) \<and>
   card (cluster (bubblesRef fieldTriple @ [newBubbleOf ''new-7'' shotA fieldTriple])
           (newBubbleOf ''new-7'' shotA fieldTriple)) = 3 \<and>
   ''new-7'' \<notin> b_id ` set (the (map_option bubblesRef (placeBubble 5 ''new-7'' shotA fieldTriple))) \<and>
   ''0-0-0.1'' \<notin> b_id ` set (the (map_option bubblesRef (placeBubble 5 ''new-7'' shotA fieldTriple))) \<and>
   ''0-1-0.7'' \<notin> b_id ` set (the (map_option bubblesRef (placeBubble 5 ''new-7'' shotA fieldTriple)))"
proof -
  have d2: "length (bubblesRef fieldPair) < 5" and d3: "length (bubblesRef fieldTriple) < 5"
    by (simp_all add: fieldPair_def fieldTriple_def)
  from match_threshold [OF d2, of "''new-7''" shotA] matches_pair
  have "card {''new-7'', ''0-0-0.1''} = 2 \<longrightarrow>
     (\<exists>st'. placeBubble 5 ''new-7'' shotA fieldPair = Some st' \<and>
           bubblesRef st' = bubblesRef fieldPair @ [newBubbleOf ''new-7'' shotA fieldPair])"
    by auto
  then have "\<exists>st'. placeBubble 5 ''new-7'' shotA fieldPair = Some st' \<and>
           bubblesRef st' = bubblesRef fieldPair @ [newBubbleOf ''new-7'' shotA fieldPair]"
    by simp
  then have a: "map_option bubblesRef (placeBubble 5 ''new-7'' shotA fieldPair) =
     Some (bubblesRef fieldPair @ [\<lparr>b_x = 40, b_y = 54.64, b_color = ''#FF5555'', b_id = ''new-7''\<rparr>])"
    unfolding newBubble_pair by auto
  from match_threshold [OF d3, of "''new-7''" shotA] matches_triple
  have "card {''new-7'', ''0-0-0.1'', ''0-1-0.7''} = 3 \<longrightarrow>
     (\<exists>st'. placeBubble 5 ''new-7'' shotA fieldTriple = Some st' \<and>
           (\<forall>b\<in>set (bubblesRef st'). b_id b \<notin> {''new-7'', ''0-0-0.1'', ''0-1-0.7''}))"
    by auto
  then obtain st' where st': "placeBubble 5 ''new-7'' shotA fieldTriple = Some st'"
     "\<forall>b\<in>set (bubblesRef st'). b_id b \<notin> {''new-7'', ''0-0-0.1'', ''0-1-0.7''}"
    by auto
  from st'(2) have "''new-7'' \<notin> b_id ` set (bubblesRef st')" "''0-0-0.1'' \<notin> b_id ` set (bubblesRef st')"
    "''0-1-0.7'' \<notin> b_id ` set (bubblesRef st')" by auto
  with st'(1) have b: "''new-7'' \<notin> b_id ` set (the (map_option bubblesRef (placeBubble 5 ''new-7'' shotA fieldTriple)))"
    "''0-0-0.1'' \<notin> b_id ` set (the (map_option bubblesRef (placeBubble 5 ''new-7'' shotA fieldTriple)))"
    "''0-1-0.7'' \<notin> b_id ` set (the (map_option bubblesRef (placeBubble 5 ''new-7'' shotA fieldTriple)))"
    by simp_all
  from a b cluster_pair cluster_triple show ?thesis by (intro conjI)
qed

lemma place_triple:
  "placeBubble 5 ''new-7'' shotA fieldTriple =
     Some (fieldTriple\<lparr>bubblesRef := [\<lparr>b_x = 140, b_y = 20, b_color = ''#5555FF'', b_id = ''0-3-0.2''\<rparr>],
                       score := 170, projectileRef := None\<rparr>)"
  unfolding placeBubble_def Let_def matches_triple newBubble_triple
  by (simp add: fieldTriple_def endPlacement_def findFloatingBubbles_def CANVAS_HEIGHT_def
        BUBBLE_RADIUS_def getDistance_less card_insert_if)

text \<open>
  C5. In a placement, with the depth bound above the size of the field: when the set of
  matches has \<open>m \<ge> 3\<close> members and \<open>f\<close> bubbles are then found floating, the score grows
  by exactly \<open>10 * m + 20 * f\<close> (and, the identifiers being distinct, the field shrinks by
  those \<open>m + f\<close> bubbles); when the set has fewer than 3 members, the score is unchanged
  and the field is the old field followed by the placed bubble. With distinct identifiers
  \<open>m\<close> is the size of the connected same-colour set of the placed bubble.
\<close>

theorem score_formula:
  assumes "length (bubblesRef st) < depth"
  shows "\<exists>R. findMatches depth (newBubbleOf newId p st) (bubblesRef st @ [newBubbleOf newId p st]) {} = Some R \<and>
           (distinct (map b_id (bubblesRef st @ [newBubbleOf newId p st])) \<longrightarrow>
              card R = card (cluster (bubblesRef st @ [newBubbleOf newId p st]) (newBubbleOf newId p st))) \<and>
           (3 \<le> card R \<longrightarrow>
              (\<exists>floating st'.
                  findFloatingBubbles depth
                    (filter (\<lambda>b. b_id b \<notin> R) (bubblesRef st @ [newBubbleOf newId p st])) = Some floating \<and>
                  placeBubble depth newId p st = Some st' \<and>
                  score st' = score st + 10 * int (card R) + 20 * int (length floating) \<and>
                  (distinct (map b_id (bubblesRef st @ [newBubbleOf newId p st])) \<longrightarrow>
                     length (bubblesRef st') + card R + length floating = length (bubblesRef st) + 1))) \<and>
           (card R < 3 \<longrightarrow>
              (\<exists>st'. placeBubble depth newId p st = Some st' \<and> score st' = score st \<and>
                     bubblesRef st' = bubblesRef st @ [newBubbleOf newId p st]))"
proof -
  let ?nb = "newBubbleOf newId p st"
  let ?up = "bubblesRef st @ [?nb]"
  from placeBubble_returns [OF assms(1), of newId p] obtain R where
    R: "findMatches depth ?nb ?up {} = Some R" and
    pl: "if 3 \<le> card R then
        \<exists>C. traverse_forEach depth
               (filter (\<lambda>b. b_y b \<le> BUBBLE_RADIUS * 2) (filter (\<lambda>b. b_id b \<notin> R) ?up))
               (filter (\<lambda>b. b_id b \<notin> R) ?up) {} = Some C \<and>
           findFloatingBubbles depth (filter (\<lambda>b. b_id b \<notin> R) ?up)
             = Some (filter (\<lambda>b. b_id b \<notin> C) (filter (\<lambda>b. b_id b \<notin> R) ?up)) \<and>
           placeBubble depth newId p st =
             Some (endPlacement (st\<lparr>bubblesRef :=
                      filter (\<lambda>b. b_id b \<notin> set (map b_id (filter (\<lambda>b. b_id b \<notin> C) (filter (\<lambda>b. b_id b \<notin> R) ?up))))
                        (filter (\<lambda>b. b_id b \<notin> R) ?up),
                    score := score st + int (card R) * 10
                       + int (length (filter (\<lambda>b. b_id b \<notin> C) (filter (\<lambda>b. b_id b \<notin> R) ?up))) * 20\<rparr>))
      else placeBubble depth newId p st = Some (endPlacement (st\<lparr>bubblesRef := ?up\<rparr>))"
    by blast
  have mem: "?nb \<in> set ?up" by simp
  have link: "card R = card (cluster ?up ?nb)" if "distinct (map b_id ?up)"
    using cluster_card(1) [OF that mem R] by simp
  let ?am = "filter (\<lambda>b. b_id b \<notin> R) ?up"
  have match: "\<exists>floating st'. findFloatingBubbles depth ?am = Some floating \<and>
                placeBubble depth newId p st = Some st' \<and>
                score st' = score st + 10 * int (card R) + 20 * int (length floating) \<and>
                (distinct (map b_id ?up) \<longrightarrow>
                   length (bubblesRef st') + card R + length floating = length (bubblesRef st) + 1)"
    if "3 \<le> card R"
  proof -
    from that pl obtain C where
      fl: "findFloatingBubbles depth ?am = Some (filter (\<lambda>b. b_id b \<notin> C) ?am)" and
      pb: "placeBubble depth newId p st =
             Some (endPlacement (st\<lparr>bubblesRef :=
                      filter (\<lambda>b. b_id b \<notin> set (map b_id (filter (\<lambda>b. b_id b \<notin> C) ?am))) ?am,
                    score := score st + int (card R) * 10
                       + int (length (filter (\<lambda>b. b_id b \<notin> C) ?am)) * 20\<rparr>))"
      by auto
    let ?floating = "filter (\<lambda>b. b_id b \<notin> C) ?am"
    let ?final = "filter (\<lambda>b. b_id b \<notin> set (map b_id ?floating)) ?am"
    have len: "length ?final + length ?floating = length ?am" by (rule floating_removed_length)
    have "length ?final + card R + length ?floating = length (bubblesRef st) + 1"
      if d: "distinct (map b_id ?up)"
    proof -
      from cluster_card(2,3) [OF d mem R] cluster_card(1) [OF d mem R]
      have "length ?am + card R = length ?up" by simp
      with len show ?thesis by simp
    qed
    with fl pb show ?thesis by simp
  qed
  have nomatch: "\<exists>st'. placeBubble depth newId p st = Some st' \<and> score st' = score st \<and> bubblesRef st' = ?up"
    if "card R < 3"
  proof -
    from that have "\<not> 3 \<le> card R" by simp
    with pl have "placeBubble depth newId p st = Some (endPlacement (st\<lparr>bubblesRef := ?up\<rparr>))" by simp
    then show ?thesis by simp
  qed
  from R link match nomatch show ?thesis by blast
qed

theorem score_formula_witness:
  "card (cluster (bubblesRef fieldTriple @ [newBubbleOf ''new-7'' shotA fieldTriple])
           (newBubbleOf ''new-7'' shotA fieldTriple)) = 3 \<and>
   score fieldTriple = 120 \<and>
   findFloatingBubbles 5 [\<lparr>b_x = 140, b_y = 20, b_color = ''#5555FF'', b_id = ''0-3-0.2''\<rparr>,
                          \<lparr>b_x = 20, b_y = 89.28, b_color = ''#55FF55'', b_id = ''2-0-0.9''\<rparr>]
     = Some [\<lparr>b_x = 20, b_y = 89.28, b_color = ''#55FF55'', b_id = ''2-0-0.9''\<rparr>] \<and>
   map_option score (placeBubble 5 ''new-7'' shotA fieldTriple) = Some (120 + 10 * 3 + 20 * 1) \<and>
   card (cluster (bubblesRef fieldPair @ [newBubbleOf ''new-7'' shotA fieldPair])
           (newBubbleOf ''new-7'' shotA fieldPair)) = 2 \<and>
   map_option score (placeBubble 5 ''new-7'' shotA fieldPair) = Some (score fieldPair) \<and>
   map_option (length \<circ> bubblesRef) (placeBubble 5 ''new-7'' shotA fieldPair) = Some 3"
proof -
  have d2: "length (bubblesRef fieldPair) < 5" and d3: "length (bubblesRef fieldTriple) < 5"
    by (simp_all add: fieldPair_def fieldTriple_def)
  from score_formula [OF d2, of "''new-7''" shotA] matches_pair
  have "card {''new-7'', ''0-0-0.1''} < 3 \<longrightarrow>
      (\<exists>st'. placeBubble 5 ''new-7'' shotA fieldPair = Some st' \<and> score st' = score fieldPair \<and>
                   bubblesRef st' = bubblesRef fieldPair @ [newBubbleOf ''new-7'' shotA fieldPair])"
    by auto
  then have "\<exists>st'. placeBubble 5 ''new-7'' shotA fieldPair = Some st' \<and> score st' = score fieldPair \<and>
                   bubblesRef st' = bubblesRef fieldPair @ [newBubbleOf ''new-7'' shotA fieldPair]"
    by simp
  then have a: "map_option score (placeBubble 5 ''new-7'' shotA fieldPair) = Some (score fieldPair)"
    and b: "map_option (length \<circ> bubblesRef) (placeBubble 5 ''new-7'' shotA fieldPair) = Some 3"
    by (auto simp: fieldPair_def)
  have s: "score fieldTriple = 120" by (simp add: fieldTriple_def)
  have c: "map_option score (placeBubble 5 ''new-7'' shotA fieldTriple) = Some (120 + 10 * 3 + 20 * 1)"
    by (simp add: place_triple)
  have f: "findFloatingBubbles 5 [\<lparr>b_x = 140, b_y = 20, b_color = ''#5555FF'', b_id = ''0-3-0.2''\<rparr>,
                          \<lparr>b_x = 20, b_y = 89.28, b_color = ''#55FF55'', b_id = ''2-0-0.9''\<rparr>]
     = Some [\<lparr>b_x = 20, b_y = 89.28, b_color = ''#55FF55'', b_id = ''2-0-0.9''\<rparr>]"
    by (simp add: findFloatingBubbles_def BUBBLE_RADIUS_def getDistance_less)
  from a b c f s cluster_pair cluster_triple show ?thesis by (intro conjI)
qed

lemma update_not_playing: "gameState st \<noteq> Playing \<Longrightarrow> update depth newId st = Some st"
  by (simp add: update_def)

lemma click_not_playing: "gameState st \<noteq> Playing \<Longrightarrow> handleCanvasClick targetX targetY newColor st = st"
  by (simp add: handleCanvasClick_def)

lemma run_gameover:
  "gameState st = Gameover \<Longrightarrow> \<forall>e\<in>set es. \<not> isReset e \<Longrightarrow> run depth es st = Some st"
proof (induction es)
  case Nil
  then show ?case by simp
next
  case (Cons e es)
  from Cons.prems have "step depth e st = Some st"
    by (cases e) (simp_all add: update_not_playing click_not_playing)
  with Cons show ?case by simp
qed

lemma update_collided:
  assumes "length (bubblesRef st) < depth" "gameState st = Playing" "projectileRef st = Some p0"
    "collided (moveProjectile p0) (bubblesRef st)"
  shows "\<exists>st'. update depth newId st = Some st' \<and> projectileRef st' = None \<and>
           gameState st' = (if (\<exists>b\<in>set (bubblesRef st'). b_y b > CANVAS_HEIGHT - 100) then Gameover else Playing)"
proof -
  have u: "update depth newId st = placeBubble depth newId (moveProjectile p0) st"
    using assms(2,3,4) by (simp add: update_def Let_def)
  from placeBubble_end [OF assms(1), of newId "moveProjectile p0"]
  obtain X where "placeBubble depth newId (moveProjectile p0) st = Some (endPlacement X)"
    and "gameState X = gameState st" by blast
  with u assms(2) show ?thesis by simp
qed

text \<open>
  C7. A tick that places a bubble clears the projectile and leaves the game state gameover
  exactly when some bubble of the resulting field lies below \<open>height - 100\<close>; in the
  state gameover every sequence of ticks and clicks without a reset leaves the whole state
  as it is, and a click creates no projectile.
\<close>

theorem gameover_latched:
  "(length (bubblesRef st) < depth \<and> gameState st = Playing \<and> projectileRef st = Some p0 \<and>
      collided (moveProjectile p0) (bubblesRef st) \<longrightarrow>
      (\<exists>st'. update depth newId st = Some st' \<and> projectileRef st' = None \<and>
         gameState st' = (if (\<exists>b\<in>set (bubblesRef st'). b_y b > CANVAS_HEIGHT - 100) then Gameover else Playing))) \<and>
   (gameState st = Gameover \<and> (\<forall>e\<in>set es. \<not> isReset e) \<longrightarrow> run depth es st = Some st) \<and>
   (gameState st = Gameover \<longrightarrow>
      projectileRef (handleCanvasClick targetX targetY newColor st) = projectileRef st)"
proof (intro conjI impI)
  assume "length (bubblesRef st) < depth \<and> gameState st = Playing \<and> projectileRef st = Some p0 \<and>
      collided (moveProjectile p0) (bubblesRef st)"
  then show "\<exists>st'. update depth newId st = Some st' \<and> projectileRef st' = None \<and>
         gameState st' = (if (\<exists>b\<in>set (bubblesRef st'). b_y b > CANVAS_HEIGHT - 100) then Gameover else Playing)"
    by (elim conjE) (rule update_collided)
next
  assume "gameState st = Gameover \<and> (\<forall>e\<in>set es. \<not> isReset e)"
  then show "run depth es st = Some st" by (elim conjE) (rule run_gameover)
next
  assume "gameState st = Gameover"
  then show "projectileRef (handleCanvasClick targetX targetY newColor st) = projectileRef st"
    by (simp add: click_not_playing)
qed

lemma update_fieldLow: "update 2 ''new-9'' fieldLow = Some fieldOver"
  by (simp add: update_def fieldLow_def fieldOver_def moveProjectile_def collided_def placeBubble_def
        endPlacement_def eval_simps)

theorem gameover_latched_witness:
  "update 2 ''new-9'' fieldLow = Some fieldOver \<and>
   gameState fieldOver = Gameover \<and>
   run 2 [Click 30 200 ''#FFFF55'', Tick ''new-10'', Click 200 100 ''#FF55FF'', Tick ''new-11''] fieldOver
     = Some fieldOver \<and>
   projectileRef (handleCanvasClick 30 200 ''#FFFF55'' fieldOver) = None"
proof -
  have g: "gameState fieldOver = Gameover" and p: "projectileRef fieldOver = None"
    by (simp_all add: fieldOver_def)
  have n: "\<forall>e\<in>set [Click 30 200 ''#FFFF55'', Tick ''new-10'', Click 200 100 ''#FF55FF'', Tick ''new-11'']. \<not> isReset e"
    by simp
  note t = gameover_latched [of fieldOver 2 "\<lparr>p_x = 140, p_y = 410, p_vx = 0, p_vy = -8, p_color = ''#FF5555''\<rparr>" "''new-9''"
      "[Click 30 200 ''#FFFF55'', Tick ''new-10'', Click 200 100 ''#FF55FF'', Tick ''new-11'']" 30 200 "''#FFFF55''"]
  have r: "run 2 [Click 30 200 ''#FFFF55'', Tick ''new-10'', Click 200 100 ''#FF55FF'', Tick ''new-11''] fieldOver
     = Some fieldOver"
    by (rule t [THEN conjunct2, THEN conjunct1, THEN mp]) (intro conjI g n)
  have "projectileRef (handleCanvasClick 30 200 ''#FFFF55'' fieldOver) = projectileRef fieldOver"
    by (rule t [THEN conjunct2, THEN conjunct2, THEN mp]) (rule g)
  with p have c: "projectileRef (handleCanvasClick 30 200 ''#FFFF55'' fieldOver) = None" by simp
  show ?thesis by (intro conjI update_fieldLow g r c)
qed

subsection \<open>The collision resolver\<close>

lemma fold_if_filter:
  "fold (\<lambda>x s. if P x then f x s else s) xs s = fold f (filter P xs) s"
  by (induction xs arbitrary: s) simp_all

lemma fold_nested_concat:
  "fold (\<lambda>a s. fold (\<lambda>b s'. g (h a b) s') ys s) xs s0 = fold g (concat (map (\<lambda>a. map (h a) ys) xs)) s0"
  by (induction xs arbitrary: s0) (simp_all add: fold_map comp_def)

lemma searchCell_takeNearer:
  "searchCell bs prevX prevY row col dr dc best =
     (if 0 \<le> fst (row + dr, col + dc) \<and> \<not> isOccupied bs (fst (row + dr, col + dc)) (snd (row + dr, col + dc))
      then takeNearer prevX prevY (row + dr, col + dc) best else best)"
  by (simp add: searchCell_def takeNearer_def centerDistance_def Let_def split: option.splits)

lemma searchNeighbors_fold:
  "searchNeighbors bs prevX prevY row col =
     fold (takeNearer prevX prevY) (freeCells bs row col) (None, row, col)"
proof -
  have "searchNeighbors bs prevX prevY row col =
     fold (\<lambda>dr best. fold (\<lambda>dc best'.
              (\<lambda>cell s. if 0 \<le> fst cell \<and> \<not> isOccupied bs (fst cell) (snd cell)
                         then takeNearer prevX prevY cell s else s) ((\<lambda>dr dc. (row + dr, col + dc)) dr dc) best')
            [-1, 0, 1] best) [-1, 0, 1] (None, row, col)"
    unfolding searchNeighbors_def searchCell_takeNearer ..
  also have "\<dots> = fold (\<lambda>cell s. if 0 \<le> fst cell \<and> \<not> isOccupied bs (fst cell) (snd cell)
                         then takeNearer prevX prevY cell s else s)
       (neighborhood row col) (None, row, col)"
    unfolding neighborhood_def by (rule fold_nested_concat)
  finally show ?thesis by (simp only: fold_if_filter freeCells_def)
qed

lemma fold_takeNearer:
  "cs \<noteq> [] \<Longrightarrow>
     \<exists>i<length cs. fold (takeNearer prevX prevY) cs (None, row, col)
          = (Some (centerDistance prevX prevY (cs ! i)), fst (cs ! i), snd (cs ! i)) \<and>
        (\<forall>j<length cs. centerDistance prevX prevY (cs ! i) \<le> centerDistance prevX prevY (cs ! j)) \<and>
        (\<forall>j<i. centerDistance prevX prevY (cs ! i) < centerDistance prevX prevY (cs ! j))"
proof (induction cs rule: rev_induct)
  case Nil
  then show ?case by simp
next
  case (snoc c cs)
  let ?d = "centerDistance prevX prevY"
  show ?case
  proof (cases "cs = []")
    case True
    then show ?thesis by (simp add: takeNearer_def)
  next
    case False
    from snoc.IH [OF this] obtain i where i: "i < length cs"
      and f: "fold (takeNearer prevX prevY) cs (None, row, col) = (Some (?d (cs ! i)), fst (cs ! i), snd (cs ! i))"
      and least: "\<forall>j<length cs. ?d (cs ! i) \<le> ?d (cs ! j)"
      and first: "\<forall>j<i. ?d (cs ! i) < ?d (cs ! j)"
      by blast
    show ?thesis
    proof (cases "?d c < ?d (cs ! i)")
      case True
      have "fold (takeNearer prevX prevY) (cs @ [c]) (None, row, col) = (Some (?d c), fst c, snd c)"
        using f True by (simp add: takeNearer_def)
      moreover have "\<forall>j<length (cs @ [c]). ?d c \<le> ?d ((cs @ [c]) ! j)"
        using True least by (auto simp: nth_append less_Suc_eq intro: order_trans less_imp_le)
      moreover have "\<forall>j<length cs. ?d c < ?d ((cs @ [c]) ! j)"
        using True least by (auto simp: nth_append intro: less_le_trans)
      ultimately show ?thesis
        by (intro exI [of _ "length cs"]) simp
    next
      case False
      have "fold (takeNearer prevX prevY) (cs @ [c]) (None, row, col) = (Some (?d (cs ! i)), fst (cs ! i), snd (cs ! i))"
        using f False by (simp add: takeNearer_def)
      moreover have "\<forall>j<length (cs @ [c]). ?d (cs ! i) \<le> ?d ((cs @ [c]) ! j)"
        using False least by (auto simp: nth_append less_Suc_eq)
      moreover have "\<forall>j<i. ?d (cs ! i) < ?d ((cs @ [c]) ! j)"
        using first i by (auto simp: nth_append)
      ultimately show ?thesis using i
        by (intro exI [of _ i]) (simp add: nth_append)
    qed
  qed
qed

lemma resolveCell_nearest:
  assumes "isOccupied bs (getRow prevY) (getCol prevX (getRow prevY))"
  shows "(freeCells bs (getRow prevY) (getCol prevX (getRow prevY)) = [] \<longrightarrow>
            resolveCell bs prevX prevY = (getRow prevY, getCol prevX (getRow prevY))) \<and>
         (freeCells bs (getRow prevY) (getCol prevX (getRow prevY)) \<noteq> [] \<longrightarrow>
            (\<exists>i<length (freeCells bs (getRow prevY) (getCol prevX (getRow prevY))).
                resolveCell bs prevX prevY = freeCells bs (getRow prevY) (getCol prevX (getRow prevY)) ! i \<and>
                (\<forall>j<length (freeCells bs (getRow prevY) (getCol prevX (getRow prevY))).
                    centerDistance prevX prevY (freeCells bs (getRow prevY) (getCol prevX (getRow prevY)) ! i)
                      \<le> centerDistance prevX prevY (freeCells bs (getRow prevY) (getCol prevX (getRow prevY)) ! j)) \<and>
                (\<forall>j<i.
                    centerDistance prevX prevY (freeCells bs (getRow prevY) (getCol prevX (getRow prevY)) ! i)
                      < centerDistance prevX prevY (freeCells bs (getRow prevY) (getCol prevX (getRow prevY)) ! j))))"
proof -
  let ?row = "getRow prevY"
  let ?col = "getCol prevX ?row"
  let ?cs = "freeCells bs ?row ?col"
  have r: "resolveCell bs prevX prevY =
      (fst (snd (fold (takeNearer prevX prevY) ?cs (None, ?row, ?col))),
       snd (snd (fold (takeNearer prevX prevY) ?cs (None, ?row, ?col))))"
    using assms by (simp add: resolveCell_def Let_def searchNeighbors_fold)
  have none: "resolveCell bs prevX prevY = (?row, ?col)" if "?cs = []"
    using that r by simp
  have some: "\<exists>i<length ?cs. resolveCell bs prevX prevY = ?cs ! i \<and>
                (\<forall>j<length ?cs. centerDistance prevX prevY (?cs ! i) \<le> centerDistance prevX prevY (?cs ! j)) \<and>
                (\<forall>j<i. centerDistance prevX prevY (?cs ! i) < centerDistance prevX prevY (?cs ! j))"
    if "?cs \<noteq> []"
  proof -
    from fold_takeNearer [OF that, of prevX prevY ?row ?col] obtain i where i: "i < length ?cs"
      and f: "fold (takeNearer prevX prevY) ?cs (None, ?row, ?col)
          = (Some (centerDistance prevX prevY (?cs ! i)), fst (?cs ! i), snd (?cs ! i))"
      and rest: "\<forall>j<length ?cs. centerDistance prevX prevY (?cs ! i) \<le> centerDistance prevX prevY (?cs ! j)"
         "\<forall>j<i. centerDistance prevX prevY (?cs ! i) < centerDistance prevX prevY (?cs ! j)"
      by blast
    from r f have "resolveCell bs prevX prevY = ?cs ! i" by simp
    with i rest show ?thesis by blast
  qed
  from none some show ?thesis by blast
qed

lemma getDistance_less_getDistance:
  "getDistance a b c d < getDistance e f g h \<longleftrightarrow>
     (c - a) * (c - a) + (d - b) * (d - b) < (g - e) * (g - e) + (h - f) * (h - f)"
  by (simp add: getDistance_def power2_eq_square)

lemma example_occupied:
  "isOccupied exampleBubbles (getRow 50) (getCol 76 (getRow 50))"
  by (simp add: exampleBubbles_def eval_simps)

lemma example_free:
  "freeCells exampleBubbles (getRow 50) (getCol 76 (getRow 50)) = [(0, 0), (1, 0), (1, 2), (2, 0), (2, 1), (2, 2)]"
  by (simp add: exampleBubbles_def freeCells_def neighborhood_def eval_simps)

lemma example_resolved:
  "resolveCell exampleBubbles 76 50 = (1, 0)"
  by (simp add: exampleBubbles_def searchNeighbors_def searchCell_def
        resolveCell_def isOccupied_def getRow_def getCol_def getX_def getY_def
        BUBBLE_RADIUS_def round_def Let_def getDistance_less_getDistance)

text \<open>
  C2. When the cell \<open>(row, col)\<close> computed from the pre-collision point is occupied, the
  bubble a placement materializes has the projectile's colour and the new identifier and
  lies at the grid centre of: the computed cell, if the 3x3 neighbourhood has no free cell
  with a row of at least 0; otherwise a free cell of the neighbourhood whose centre is
  nearest to the pre-collision point, the first such in the scan order (every free cell
  scanned before it is strictly farther). In a tick that collides, this bubble is appended
  to the field handed to findMatches, and it is the last bubble of the resulting field
  unless three or more bubbles match.
\<close>

theorem nearest_free_neighbor:
  fixes st :: SimState and p :: Projectile and newId :: string
  defines "prevX \<equiv> p_x p - p_vx p"
    and "prevY \<equiv> p_y p - p_vy p"
  defines "row \<equiv> getRow prevY"
  defines "col \<equiv> getCol prevX row"
  defines "cands \<equiv> freeCells (bubblesRef st) row col"
    and "nb \<equiv> newBubbleOf newId p st"
  assumes occupied: "isOccupied (bubblesRef st) row col"
  shows "(cands = [] \<longrightarrow>
            nb = \<lparr>b_x = getX row col, b_y = getY row, b_color = p_color p, b_id = newId\<rparr>) \<and>
         (cands \<noteq> [] \<longrightarrow>
            (\<exists>i<length cands.
                nb = \<lparr>b_x = getX (fst (cands ! i)) (snd (cands ! i)), b_y = getY (fst (cands ! i)),
                       b_color = p_color p, b_id = newId\<rparr> \<and>
                (\<forall>j<length cands. centerDistance prevX prevY (cands ! i) \<le> centerDistance prevX prevY (cands ! j)) \<and>
                (\<forall>j<i. centerDistance prevX prevY (cands ! i) < centerDistance prevX prevY (cands ! j)))) \<and>
         (\<forall>depth p0.
            gameState st = Playing \<and> projectileRef st = Some p0 \<and> moveProjectile p0 = p \<and>
            collided p (bubblesRef st) \<and> length (bubblesRef st) < depth \<longrightarrow>
            (\<exists>R st'. findMatches depth nb (bubblesRef st @ [nb]) {} = Some R \<and>
                update depth newId st = Some st' \<and>
                (card R < 3 \<longrightarrow> bubblesRef st' = bubblesRef st @ [nb])))"
proof (intro conjI impI allI)
  have nb: "nb = \<lparr>b_x = getX (fst (resolveCell (bubblesRef st) prevX prevY))
                         (snd (resolveCell (bubblesRef st) prevX prevY)),
                 b_y = getY (fst (resolveCell (bubblesRef st) prevX prevY)),
                 b_color = p_color p, b_id = newId\<rparr>"
    by (simp add: nb_def newBubbleOf_def prevX_def prevY_def Let_def split_beta)
  note rc = resolveCell_nearest [OF occupied [unfolded col_def row_def],
      folded row_def, folded col_def, folded cands_def]
  {
    assume "cands = []"
    with rc have "resolveCell (bubblesRef st) prevX prevY = (row, col)" by blast
    then show "nb = \<lparr>b_x = getX row col, b_y = getY row, b_color = p_color p, b_id = newId\<rparr>"
      unfolding nb by simp
  }
  {
    assume "cands \<noteq> []"
    with rc obtain i where i: "i < length cands"
      and r: "resolveCell (bubblesRef st) prevX prevY = cands ! i"
      and m: "\<forall>j<length cands. centerDistance prevX prevY (cands ! i) \<le> centerDistance prevX prevY (cands ! j)"
         "\<forall>j<i. centerDistance prevX prevY (cands ! i) < centerDistance prevX prevY (cands ! j)"
      by blast
    have "nb = \<lparr>b_x = getX (fst (cands ! i)) (snd (cands ! i)), b_y = getY (fst (cands ! i)),
                       b_color = p_color p, b_id = newId\<rparr>"
      unfolding nb r ..
    with i m show "\<exists>i<length cands.
                nb = \<lparr>b_x = getX (fst (cands ! i)) (snd (cands ! i)), b_y = getY (fst (cands ! i)),
                       b_color = p_color p, b_id = newId\<rparr> \<and>
                (\<forall>j<length cands. centerDistance prevX prevY (cands ! i) \<le> centerDistance prevX prevY (cands ! j)) \<and>
                (\<forall>j<i. centerDistance prevX prevY (cands ! i) < centerDistance prevX prevY (cands ! j))"
      by blast
  }
  {
    fix depth p0
    assume a: "gameState st = Playing \<and> projectileRef st = Some p0 \<and> moveProjectile p0 = p \<and>
            collided p (bubblesRef st) \<and> length (bubblesRef st) < depth"
    then have u: "update depth newId st = placeBubble depth newId p st"
      by (auto simp: update_def Let_def)
    from a have d: "length (bubblesRef st) < depth" by simp
    from placeBubble_returns [OF d, of newId p] obtain R where
      R: "findMatches depth nb (bubblesRef st @ [nb]) {} = Some R"
      and pl: "\<not> 3 \<le> card R \<longrightarrow> placeBubble depth newId p st =
             Some (endPlacement (st\<lparr>bubblesRef := bubblesRef st @ [nb]\<rparr>))"
      and pm: "3 \<le> card R \<longrightarrow> (\<exists>X. placeBubble depth newId p st = Some X)"
      unfolding nb_def by (auto split: if_splits)
    show "\<exists>R st'. findMatches depth nb (bubblesRef st @ [nb]) {} = Some R \<and>
                update depth newId st = Some st' \<and>
                (card R < 3 \<longrightarrow> bubblesRef st' = bubblesRef st @ [nb])"
    proof (cases "3 \<le> card R")
      case True
      with pm obtain X where "placeBubble depth newId p st = Some X" by blast
      with R u True show ?thesis by auto
    next
      case False
      with pl have "placeBubble depth newId p st =
             Some (endPlacement (st\<lparr>bubblesRef := bubblesRef st @ [nb]\<rparr>))" by simp
      with R u show ?thesis by simp
    qed
  }
qed

lemma example_placed:
  "newBubbleOf ''new-3'' (moveProjectile exampleShot) exampleState =
     \<lparr>b_x = 40, b_y = 54.64, b_color = ''#5555FF'', b_id = ''new-3''\<rparr>"
proof -
  have m: "moveProjectile exampleShot = \<lparr>p_x = 76, p_y = 42, p_vx = 0, p_vy = -8, p_color = ''#5555FF''\<rparr>"
    by (simp add: moveProjectile_def exampleShot_def Let_def BUBBLE_RADIUS_def CANVAS_WIDTH_def GRID_COLS_def)
  show ?thesis
    unfolding m newBubbleOf_def Let_def
    by (simp add: exampleState_def example_resolved getX_def getY_def BUBBLE_RADIUS_def)
qed

lemma example_matches:
  "findMatches 5 \<lparr>b_x = 40, b_y = 54.64, b_color = ''#5555FF'', b_id = ''new-3''\<rparr>
     (exampleBubbles @ [\<lparr>b_x = 40, b_y = 54.64, b_color = ''#5555FF'', b_id = ''new-3''\<rparr>]) {}
   = Some {''new-3''}"
  by (simp add: exampleBubbles_def BUBBLE_RADIUS_def getDistance_less)

theorem nearest_free_neighbor_witness:
  "isOccupied (bubblesRef exampleState) (getRow 50) (getCol 76 (getRow 50)) \<and>
   freeCells exampleBubbles (getRow 50) (getCol 76 (getRow 50)) = [(0, 0), (1, 0), (1, 2), (2, 0), (2, 1), (2, 2)] \<and>
   newBubbleOf ''new-3'' (moveProjectile exampleShot) exampleState =
     \<lparr>b_x = getX 1 0, b_y = getY 1, b_color = ''#5555FF'', b_id = ''new-3''\<rparr> \<and>
   map_option bubblesRef (update 5 ''new-3'' exampleState) =
     Some (exampleBubbles @ [\<lparr>b_x = 40, b_y = 54.64, b_color = ''#5555FF'', b_id = ''new-3''\<rparr>])"
proof -
  have m: "moveProjectile exampleShot = \<lparr>p_x = 76, p_y = 42, p_vx = 0, p_vy = -8, p_color = ''#5555FF''\<rparr>"
    by (simp add: moveProjectile_def exampleShot_def Let_def BUBBLE_RADIUS_def CANVAS_WIDTH_def GRID_COLS_def)
  have prev: "p_x (moveProjectile exampleShot) - p_vx (moveProjectile exampleShot) = 76"
    "p_y (moveProjectile exampleShot) - p_vy (moveProjectile exampleShot) = 50"
    unfolding m by simp_all
  have occ: "isOccupied (bubblesRef exampleState) (getRow 50) (getCol 76 (getRow 50))"
    using example_occupied by (simp add: exampleState_def)
  have occ': "isOccupied (bubblesRef exampleState)
      (getRow (p_y (moveProjectile exampleShot) - p_vy (moveProjectile exampleShot)))
      (getCol (p_x (moveProjectile exampleShot) - p_vx (moveProjectile exampleShot))
        (getRow (p_y (moveProjectile exampleShot) - p_vy (moveProjectile exampleShot))))"
    unfolding prev by (rule occ)
  have col: "collided (moveProjectile exampleShot) (bubblesRef exampleState)"
    unfolding m by (simp add: collided_def exampleState_def exampleBubbles_def BUBBLE_RADIUS_def getDistance_less)
  have pre: "gameState exampleState = Playing \<and> projectileRef exampleState = Some exampleShot \<and>
      moveProjectile exampleShot = moveProjectile exampleShot \<and>
      collided (moveProjectile exampleShot) (bubblesRef exampleState) \<and>
      length (bubblesRef exampleState) < 5"
    using col by (simp add: exampleState_def exampleBubbles_def)
  note t = nearest_free_neighbor [OF occ', of "''new-3''", THEN conjunct2, THEN conjunct2,
      THEN spec, THEN spec, THEN mp, OF pre]
  then obtain R st' where
    R: "findMatches 5 (newBubbleOf ''new-3'' (moveProjectile exampleShot) exampleState)
          (bubblesRef exampleState @ [newBubbleOf ''new-3'' (moveProjectile exampleShot) exampleState]) {} = Some R"
    and u: "update 5 ''new-3'' exampleState = Some st'"
    and f: "card R < 3 \<longrightarrow> bubblesRef st' =
          bubblesRef exampleState @ [newBubbleOf ''new-3'' (moveProjectile exampleShot) exampleState]"
    by blast
  from R have "R = {''new-3''}"
    unfolding example_placed using example_matches by (simp add: exampleState_def)
  with f have "bubblesRef st' =
      bubblesRef exampleState @ [newBubbleOf ''new-3'' (moveProjectile exampleShot) exampleState]"
    by simp
  with u have upd: "map_option bubblesRef (update 5 ''new-3'' exampleState) =
     Some (exampleBubbles @ [\<lparr>b_x = 40, b_y = 54.64, b_color = ''#5555FF'', b_id = ''new-3''\<rparr>])"
    unfolding example_placed by (simp add: exampleState_def)
  have nb: "newBubbleOf ''new-3'' (moveProjectile exampleShot) exampleState =
     \<lparr>b_x = getX 1 0, b_y = getY 1, b_color = ''#5555FF'', b_id = ''new-3''\<rparr>"
    unfolding example_placed by (simp add: getX_def getY_def BUBBLE_RADIUS_def)
  show ?thesis by (intro conjI occ example_free nb upd)
qed

subsection \<open>The playfield bounds\<close>

lemma atan2_third_quadrant:
  assumes "x < 0" "y < 0"
  shows "cos (atan2 y x) = x / sqrt (x\<^sup>2 + y\<^sup>2)" and "sin (atan2 y x) = y / sqrt (x\<^sup>2 + y\<^sup>2)"
proof -
  have a: "atan2 y x = arctan (y / x) - pi" using assms by (simp add: atan2_def)
  have pos: "0 < x\<^sup>2 + y\<^sup>2" using assms by (simp add: sum_power2_gt_zero_iff)
  have "1 + (y / x)\<^sup>2 = (x\<^sup>2 + y\<^sup>2) / x\<^sup>2" using assms by (simp add: field_simps power2_eq_square)
  then have s: "sqrt (1 + (y / x)\<^sup>2) = sqrt (x\<^sup>2 + y\<^sup>2) / (- x)"
    using assms by (simp add: real_sqrt_divide)
  have "cos (atan2 y x) = - cos (arctan (y / x))" unfolding a by (simp add: cos_diff)
  also have "\<dots> = - (1 / sqrt (1 + (y / x)\<^sup>2))" by (simp add: cos_arctan)
  also have "\<dots> = x / sqrt (x\<^sup>2 + y\<^sup>2)" unfolding s using assms by (simp add: field_simps)
  finally show "cos (atan2 y x) = x / sqrt (x\<^sup>2 + y\<^sup>2)" .
  have "sin (atan2 y x) = - sin (arctan (y / x))" unfolding a by (simp add: sin_diff)
  also have "\<dots> = - ((y / x) / sqrt (1 + (y / x)\<^sup>2))" by (simp add: sin_arctan)
  also have "\<dots> = y / sqrt (x\<^sup>2 + y\<^sup>2)" unfolding s using assms by (simp add: field_simps)
  finally show "sin (atan2 y x) = y / sqrt (x\<^sup>2 + y\<^sup>2)" .
qed

lemma sqrt_289: "sqrt 289 = 17"
  by (rule real_sqrt_unique) simp_all

lemma sqrt_25: "sqrt 25 = 5"
  by (rule real_sqrt_unique) simp_all

lemma click_first:
  "gameState st = Playing \<Longrightarrow> projectileRef st = None \<Longrightarrow>
   handleCanvasClick 152 445 newColor st =
     st\<lparr>projectileRef := Some \<lparr>p_x = 160, p_y = 460, p_vx = - (64 / 17), p_vy = - (120 / 17),
                                 p_color = nextColor st\<rparr>,
        nextColor := newColor\<rparr>"
  using atan2_third_quadrant [of "-8" "-15"]
  by (simp add: handleCanvasClick_def CANVAS_WIDTH_def CANVAS_HEIGHT_def GRID_COLS_def BUBBLE_RADIUS_def
        sqrt_289)

lemma click_second:
  "gameState st = Playing \<Longrightarrow> projectileRef st = None \<Longrightarrow>
   handleCanvasClick 157 456 newColor st =
     st\<lparr>projectileRef := Some \<lparr>p_x = 160, p_y = 460, p_vx = - (24 / 5), p_vy = - (32 / 5),
                                 p_color = nextColor st\<rparr>,
        nextColor := newColor\<rparr>"
  using atan2_third_quadrant [of "-3" "-4"]
  by (simp add: handleCanvasClick_def CANVAS_WIDTH_def CANVAS_HEIGHT_def GRID_COLS_def BUBBLE_RADIUS_def
        sqrt_25)

lemma getDistance_ge_dy: "\<bar>y2 - y1\<bar> \<le> getDistance x1 y1 x2 y2"
proof -
  have "\<bar>y2 - y1\<bar> = sqrt ((y2 - y1)\<^sup>2)" by simp
  also have "\<dots> \<le> sqrt ((x2 - x1)\<^sup>2 + (y2 - y1)\<^sup>2)" by (rule real_sqrt_le_mono) simp
  finally show ?thesis by (simp add: getDistance_def)
qed

lemma not_collided_below:
  assumes "\<forall>b\<in>set bs. b_y b \<le> Y" "Y + 36 \<le> p_y p" "20 \<le> p_y p"
  shows "\<not> collided p bs"
proof -
  have "\<not> getDistance (p_x p) (p_y p) (b_x b) (b_y b) < 36" if "b \<in> set bs" for b
  proof -
    from that assms have "36 \<le> \<bar>b_y b - p_y p\<bar>" by fastforce
    with getDistance_ge_dy [of "b_y b" "p_y p" "p_x p" "b_x b"] show ?thesis by simp
  qed
  with assms(3) show ?thesis by (auto simp: collided_def BUBBLE_RADIUS_def)
qed

lemma moveProjectile_inside:
  "20 \<le> p_x p + p_vx p \<Longrightarrow> p_x p + p_vx p \<le> 300 \<Longrightarrow>
   moveProjectile p = p\<lparr>p_x := p_x p + p_vx p, p_y := p_y p + p_vy p\<rparr>"
  by (simp add: moveProjectile_def Let_def BUBBLE_RADIUS_def CANVAS_WIDTH_def GRID_COLS_def)

lemma update_flight:
  assumes "gameState st = Playing" "\<forall>b\<in>set (bubblesRef st). b_y b \<le> Y"
    "Y + 36 \<le> p_y (moveProjectile p)" "20 \<le> p_y (moveProjectile p)" "p_y (moveProjectile p) \<le> 520"
  shows "update depth newId (st\<lparr>projectileRef := Some p\<rparr>) = Some (st\<lparr>projectileRef := Some (moveProjectile p)\<rparr>)"
proof -
  have "\<not> collided (moveProjectile p) (bubblesRef st)"
    using assms(2,3,4) by (rule not_collided_below)
  with assms(1,4,5) show ?thesis
    by (simp add: update_def Let_def BUBBLE_RADIUS_def CANVAS_HEIGHT_def)
qed

lemma flight:
  assumes "gameState st = Playing" "\<forall>b\<in>set (bubblesRef st). b_y b \<le> Y" "- 16 \<le> Y"
  shows "p_vx p \<le> 0 \<Longrightarrow> p_vy p \<le> 0 \<Longrightarrow> p_x p \<le> 300 \<Longrightarrow> p_y p \<le> 520 \<Longrightarrow>
         20 \<le> p_x p + real n * p_vx p \<Longrightarrow> Y + 36 \<le> p_y p + real n * p_vy p \<Longrightarrow>
         run depth (replicate n (Tick newId)) (st\<lparr>projectileRef := Some p\<rparr>) =
           Some (st\<lparr>projectileRef := Some (p\<lparr>p_x := p_x p + real n * p_vx p, p_y := p_y p + real n * p_vy p\<rparr>)\<rparr>)"
proof (induction n arbitrary: p)
  case 0
  then show ?case by simp
next
  case (Suc n)
  have nx: "real n * p_vx p \<le> 0" and ny: "real n * p_vy p \<le> 0"
    using Suc.prems(1,2) by (simp_all add: mult_nonneg_nonpos)
  have x1: "20 \<le> p_x p + p_vx p" using Suc.prems(5) nx by (simp add: algebra_simps)
  have x2: "p_x p + p_vx p \<le> 300" using Suc.prems(1,3) by simp
  have y1: "Y + 36 \<le> p_y p + p_vy p" using Suc.prems(6) ny by (simp add: algebra_simps)
  have y2: "p_y p + p_vy p \<le> 520" using Suc.prems(2,4) by simp
  let ?p' = "p\<lparr>p_x := p_x p + p_vx p, p_y := p_y p + p_vy p\<rparr>"
  have m: "moveProjectile p = ?p'" using x1 x2 by (rule moveProjectile_inside)
  have u: "update depth newId (st\<lparr>projectileRef := Some p\<rparr>) = Some (st\<lparr>projectileRef := Some ?p'\<rparr>)"
    using update_flight [OF assms(1,2), of p depth newId] y1 y2 assms(3) unfolding m by simp
  have "run depth (replicate n (Tick newId)) (st\<lparr>projectileRef := Some ?p'\<rparr>) =
           Some (st\<lparr>projectileRef := Some (?p'\<lparr>p_x := p_x ?p' + real n * p_vx ?p', p_y := p_y ?p' + real n * p_vy ?p'\<rparr>)\<rparr>)"
    using Suc.prems x1 x2 y1 y2 by (intro Suc.IH) (simp_all add: algebra_simps)
  then show ?case using u by (simp add: algebra_simps)
qed

lemma run_append:
  "run depth (es @ es') st = (case run depth es st of None \<Rightarrow> None | Some st' \<Rightarrow> run depth es' st')"
  by (induction es arbitrary: st) (simp_all split: option.splits)

lemma initial_rows: "\<forall>b\<in>set (initialBubbles colorAt idAt). b_y b \<le> 193.2"
  by (simp add: initialBubbles_rows upto_rec1 getY_def BUBBLE_RADIUS_def)

lemma initial_cells:
  "isOccupied (initialBubbles colorAt idAt) r c \<longleftrightarrow>
     (r, c) \<in> set (concat (map (\<lambda>row. map (\<lambda>col. (row, col)) [0..(if row mod 2 = 0 then 7 else 6)]) [0..5]))"
  by (simp add: isOccupied_def initialBubbles_rows upto_rec1 getRow_getY getCol_getX Let_def)

lemma resolveCell_free:
  "\<not> isOccupied bs (getRow prevY) (getCol prevX (getRow prevY)) \<Longrightarrow>
   resolveCell bs prevX prevY = (getRow prevY, getCol prevX (getRow prevY))"
  by (simp add: resolveCell_def Let_def)

lemma findMatches_alone:
  assumes "\<forall>b\<in>set bs. b_color b \<noteq> b_color nb"
  shows "findMatches (Suc depth) nb (bs @ [nb]) {} = Some {b_id nb}"
proof -
  have "filter (\<lambda>b. b_id b \<notin> {b_id nb} \<and> b_color b = b_color nb \<and>
            getDistance (b_x b) (b_y b) (b_x nb) (b_y nb) < BUBBLE_RADIUS * 2.5) (bs @ [nb]) = []"
    using assms by (auto simp: filter_empty_conv)
  then show ?thesis by (simp add: Let_def)
qed

lemma place_alone:
  assumes "gameState st = Playing"
    and "collided (moveProjectile p0) (bubblesRef st)"
    and "\<forall>b\<in>set (bubblesRef st). b_color b \<noteq> p_color p0"
    and "\<forall>b\<in>set (bubblesRef st). b_y b \<le> 400"
    and "b_y (newBubbleOf newId (moveProjectile p0) (st\<lparr>projectileRef := Some p0\<rparr>)) \<le> 400"
  shows "update (Suc depth) newId (st\<lparr>projectileRef := Some p0\<rparr>) =
           Some (st\<lparr>bubblesRef := bubblesRef st @ [newBubbleOf newId (moveProjectile p0) (st\<lparr>projectileRef := Some p0\<rparr>)],
                   projectileRef := None\<rparr>)"
proof -
  let ?st = "st\<lparr>projectileRef := Some p0\<rparr>"
  let ?nb = "newBubbleOf newId (moveProjectile p0) ?st"
  have col: "b_color ?nb = p_color p0"
    by (simp add: newBubbleOf_def moveProjectile_def Let_def split_beta)
  have "findMatches (Suc depth) ?nb (bubblesRef ?st @ [?nb]) {} = Some {b_id ?nb}"
    using assms(3) col by (intro findMatches_alone) simp
  then have "placeBubble (Suc depth) newId (moveProjectile p0) ?st =
      Some (endPlacement (?st\<lparr>bubblesRef := bubblesRef ?st @ [?nb]\<rparr>))"
    unfolding placeBubble_def Let_def by simp
  moreover have "endPlacement (?st\<lparr>bubblesRef := bubblesRef ?st @ [?nb]\<rparr>) =
      st\<lparr>bubblesRef := bubblesRef st @ [?nb], projectileRef := None\<rparr>"
    using assms(4,5) by (auto simp: endPlacement_def Let_def CANVAS_HEIGHT_def)
  moreover have "update (Suc depth) newId ?st = placeBubble (Suc depth) newId (moveProjectile p0) ?st"
    using assms(1,2) by (simp add: update_def Let_def)
  ultimately show ?thesis by simp
qed

lemma cex_reset:
  "initGame cexColorAt cexIdAt (mounted ''#55FF55'') = cexPlaying cexField ''#55FF55''"
  by (simp add: initGame_def mounted_def cexPlaying_def cexField_def)

lemma cexField_color: "\<forall>b\<in>set cexField. b_color b = ''#FF5555''"
  by (simp add: cexField_def initialBubbles_rows upto_rec1 cexColorAt_def)

lemma cexField_rows: "\<forall>b\<in>set cexField. b_y b \<le> 193.2"
  unfolding cexField_def by (rule initial_rows)

lemma cexField_member:
  "\<lparr>b_x = 40, b_y = 54.64 + 138.56, b_color = ''#FF5555'', b_id = cexIdAt 5 0\<rparr> \<in> set cexField"
  by (simp add: cexField_def initialBubbles_rows upto_rec1 cexColorAt_def eval_simps)

text \<open>The first shot: 32 ticks of flight, then the hit below row 5 at the left wall.\<close>

lemma cex_shot1_flight:
  "run 50 (replicate 32 (Tick ''new-1''))
     ((cexPlaying cexField ''#5555FF'')\<lparr>projectileRef :=
        Some \<lparr>p_x = 160, p_y = 460, p_vx = - (64 / 17), p_vy = - (120 / 17), p_color = ''#55FF55''\<rparr>\<rparr>)
   = Some ((cexPlaying cexField ''#5555FF'')\<lparr>projectileRef :=
        Some \<lparr>p_x = 672 / 17, p_y = 3980 / 17, p_vx = - (64 / 17), p_vy = - (120 / 17), p_color = ''#55FF55''\<rparr>\<rparr>)"
proof -
  have "run 50 (replicate 32 (Tick ''new-1''))
     ((cexPlaying cexField ''#5555FF'')\<lparr>projectileRef :=
        Some \<lparr>p_x = 160, p_y = 460, p_vx = - (64 / 17), p_vy = - (120 / 17), p_color = ''#55FF55''\<rparr>\<rparr>)
   = Some ((cexPlaying cexField ''#5555FF'')\<lparr>projectileRef :=
        Some (\<lparr>p_x = 160, p_y = 460, p_vx = - (64 / 17), p_vy = - (120 / 17), p_color = ''#55FF55''\<rparr>
          \<lparr>p_x := p_x \<lparr>p_x = 160, p_y = 460, p_vx = - (64 / 17), p_vy = - (120 / 17), p_color = ''#55FF55''\<rparr>
                   + real 32 * p_vx \<lparr>p_x = 160, p_y = 460, p_vx = - (64 / 17), p_vy = - (120 / 17), p_color = ''#55FF55''\<rparr>,
            p_y := p_y \<lparr>p_x = 160, p_y = 460, p_vx = - (64 / 17), p_vy = - (120 / 17), p_color = ''#55FF55''\<rparr>
                   + real 32 * p_vy \<lparr>p_x = 160, p_y = 460, p_vx = - (64 / 17), p_vy = - (120 / 17), p_color = ''#55FF55''\<rparr>\<rparr>)\<rparr>)"
    by (rule flight [where Y = "193.2"]) (use cexField_rows in \<open>simp_all add: cexPlaying_def\<close>)
  then show ?thesis by simp
qed

lemma cex_shot1_hit:
  "update 50 ''new-1''
     ((cexPlaying cexField ''#5555FF'')\<lparr>projectileRef :=
        Some \<lparr>p_x = 672 / 17, p_y = 3980 / 17, p_vx = - (64 / 17), p_vy = - (120 / 17), p_color = ''#55FF55''\<rparr>\<rparr>)
   = Some (cexPlaying (cexField @ [cexBubble1]) ''#5555FF'')"
proof -
  let ?p0 = "\<lparr>p_x = 672 / 17, p_y = 3980 / 17, p_vx = - (64 / 17), p_vy = - (120 / 17), p_color = ''#55FF55''\<rparr>"
  let ?st = "cexPlaying cexField ''#5555FF''"
  have m: "moveProjectile ?p0 = \<lparr>p_x = 608 / 17, p_y = 3860 / 17, p_vx = - (64 / 17), p_vy = - (120 / 17), p_color = ''#55FF55''\<rparr>"
    by (simp add: moveProjectile_def Let_def BUBBLE_RADIUS_def CANVAS_WIDTH_def GRID_COLS_def)
  have c: "collided (moveProjectile ?p0) (bubblesRef ?st)"
    unfolding m collided_def using cexField_member
    by (auto simp: cexPlaying_def BUBBLE_RADIUS_def getDistance_less intro!: bexI [OF _ cexField_member])
  have free: "\<not> isOccupied cexField (getRow (3980 / 17)) (getCol (672 / 17) (getRow (3980 / 17)))"
    unfolding cexField_def initial_cells by (simp add: upto_rec1 eval_simps)
  have nb: "newBubbleOf ''new-1'' (moveProjectile ?p0) (?st\<lparr>projectileRef := Some ?p0\<rparr>) = cexBubble1"
    unfolding m using free
    by (simp add: newBubbleOf_def cexPlaying_def resolveCell_free cexBubble1_def
          getRow_def getCol_def getX_def getY_def BUBBLE_RADIUS_def round_def Let_def)
  have "update (Suc 49) ''new-1'' (?st\<lparr>projectileRef := Some ?p0\<rparr>) =
           Some (?st\<lparr>bubblesRef := bubblesRef ?st @ [newBubbleOf ''new-1'' (moveProjectile ?p0) (?st\<lparr>projectileRef := Some ?p0\<rparr>)],
                   projectileRef := None\<rparr>)"
  proof (rule place_alone)
    show "gameState ?st = Playing" by (simp add: cexPlaying_def)
    show "collided (moveProjectile ?p0) (bubblesRef ?st)" by (rule c)
    show "\<forall>b\<in>set (bubblesRef ?st). b_color b \<noteq> p_color ?p0"
      using cexField_color by (simp add: cexPlaying_def)
    show "\<forall>b\<in>set (bubblesRef ?st). b_y b \<le> 400"
      using cexField_rows by (fastforce simp: cexPlaying_def)
    show "b_y (newBubbleOf ''new-1'' (moveProjectile ?p0) (?st\<lparr>projectileRef := Some ?p0\<rparr>)) \<le> 400"
      unfolding nb by (simp add: cexBubble1_def)
  qed
  then show ?thesis unfolding nb by (simp add: cexPlaying_def)
qed

lemma isOccupied_append:
  "isOccupied (bs @ [b]) r c \<longleftrightarrow> isOccupied bs r c \<or> (getRow (b_y b) = r \<and> getCol (b_x b) (getRow (b_y b)) = c)"
  by (auto simp: isOccupied_def Let_def)

lemma cexField1_rows: "\<forall>b\<in>set (cexField @ [cexBubble1]). b_y b \<le> 227.84"
  using cexField_rows by (fastforce simp: cexBubble1_def)

text \<open>
  The second shot: 29 ticks of flight, the tick that overshoots the left wall and turns the
  projectile, then the hit on the bubble of the first shot.
\<close>

lemma cex_shot2_flight:
  "run 50 (replicate 29 (Tick ''new-2''))
     ((cexPlaying (cexField @ [cexBubble1]) ''#FFFF55'')\<lparr>projectileRef :=
        Some \<lparr>p_x = 160, p_y = 460, p_vx = - (24 / 5), p_vy = - (32 / 5), p_color = ''#5555FF''\<rparr>\<rparr>)
   = Some ((cexPlaying (cexField @ [cexBubble1]) ''#FFFF55'')\<lparr>projectileRef :=
        Some \<lparr>p_x = 104 / 5, p_y = 1372 / 5, p_vx = - (24 / 5), p_vy = - (32 / 5), p_color = ''#5555FF''\<rparr>\<rparr>)"
proof -
  have "run 50 (replicate 29 (Tick ''new-2''))
     ((cexPlaying (cexField @ [cexBubble1]) ''#FFFF55'')\<lparr>projectileRef :=
        Some \<lparr>p_x = 160, p_y = 460, p_vx = - (24 / 5), p_vy = - (32 / 5), p_color = ''#5555FF''\<rparr>\<rparr>)
   = Some ((cexPlaying (cexField @ [cexBubble1]) ''#FFFF55'')\<lparr>projectileRef :=
        Some (\<lparr>p_x = 160, p_y = 460, p_vx = - (24 / 5), p_vy = - (32 / 5), p_color = ''#5555FF''\<rparr>
          \<lparr>p_x := p_x \<lparr>p_x = 160, p_y = 460, p_vx = - (24 / 5), p_vy = - (32 / 5), p_color = ''#5555FF''\<rparr>
                   + real 29 * p_vx \<lparr>p_x = 160, p_y = 460, p_vx = - (24 / 5), p_vy = - (32 / 5), p_color = ''#5555FF''\<rparr>,
            p_y := p_y \<lparr>p_x = 160, p_y = 460, p_vx = - (24 / 5), p_vy = - (32 / 5), p_color = ''#5555FF''\<rparr>
                   + real 29 * p_vy \<lparr>p_x = 160, p_y = 460, p_vx = - (24 / 5), p_vy = - (32 / 5), p_color = ''#5555FF''\<rparr>\<rparr>)\<rparr>)"
    by (rule flight [where Y = "227.84"]) (use cexField1_rows in \<open>simp_all add: cexPlaying_def\<close>)
  then show ?thesis by simp
qed

lemma cex_shot2_bounce:
  "update 50 ''new-2''
     ((cexPlaying (cexField @ [cexBubble1]) ''#FFFF55'')\<lparr>projectileRef :=
        Some \<lparr>p_x = 104 / 5, p_y = 1372 / 5, p_vx = - (24 / 5), p_vy = - (32 / 5), p_color = ''#5555FF''\<rparr>\<rparr>)
   = Some ((cexPlaying (cexField @ [cexBubble1]) ''#FFFF55'')\<lparr>projectileRef :=
        Some \<lparr>p_x = 16, p_y = 268, p_vx = 24 / 5, p_vy = - (32 / 5), p_color = ''#5555FF''\<rparr>\<rparr>)"
proof -
  let ?p0 = "\<lparr>p_x = 104 / 5, p_y = 1372 / 5, p_vx = - (24 / 5), p_vy = - (32 / 5), p_color = ''#5555FF''\<rparr>"
  have m: "moveProjectile ?p0 = \<lparr>p_x = 16, p_y = 268, p_vx = 24 / 5, p_vy = - (32 / 5), p_color = ''#5555FF''\<rparr>"
    by (simp add: moveProjectile_def Let_def BUBBLE_RADIUS_def CANVAS_WIDTH_def GRID_COLS_def)
  have "update 50 ''new-2'' ((cexPlaying (cexField @ [cexBubble1]) ''#FFFF55'')\<lparr>projectileRef := Some ?p0\<rparr>)
     = Some ((cexPlaying (cexField @ [cexBubble1]) ''#FFFF55'')\<lparr>projectileRef := Some (moveProjectile ?p0)\<rparr>)"
    by (rule update_flight [where Y = "227.84"]) (use cexField1_rows in \<open>simp_all add: cexPlaying_def m\<close>)
  then show ?thesis unfolding m .
qed

lemma cex_shot2_hit:
  "update 50 ''new-2''
     ((cexPlaying (cexField @ [cexBubble1]) ''#FFFF55'')\<lparr>projectileRef :=
        Some \<lparr>p_x = 16, p_y = 268, p_vx = 24 / 5, p_vy = - (32 / 5), p_color = ''#5555FF''\<rparr>\<rparr>)
   = Some (cexPlaying (cexField @ [cexBubble1, cexBubble2]) ''#FFFF55'')"
proof -
  let ?p0 = "\<lparr>p_x = 16, p_y = 268, p_vx = 24 / 5, p_vy = - (32 / 5), p_color = ''#5555FF''\<rparr>"
  let ?st = "cexPlaying (cexField @ [cexBubble1]) ''#FFFF55''"
  have m: "moveProjectile ?p0 = \<lparr>p_x = 104 / 5, p_y = 1308 / 5, p_vx = 24 / 5, p_vy = - (32 / 5), p_color = ''#5555FF''\<rparr>"
    by (simp add: moveProjectile_def Let_def BUBBLE_RADIUS_def CANVAS_WIDTH_def GRID_COLS_def)
  have c: "collided (moveProjectile ?p0) (bubblesRef ?st)"
    unfolding m collided_def
    by (simp add: cexPlaying_def cexBubble1_def BUBBLE_RADIUS_def getDistance_less)
  have free: "\<not> isOccupied (cexField @ [cexBubble1]) (getRow 268) (getCol 16 (getRow 268))"
    unfolding isOccupied_append cexField_def initial_cells
    by (simp add: upto_rec1 cexBubble1_def eval_simps)
  have nb: "newBubbleOf ''new-2'' (moveProjectile ?p0) (?st\<lparr>projectileRef := Some ?p0\<rparr>) = cexBubble2"
    unfolding m using free
    by (simp add: newBubbleOf_def cexPlaying_def resolveCell_free cexBubble2_def
          getRow_def getCol_def getX_def getY_def BUBBLE_RADIUS_def round_def Let_def)
  have "update (Suc 49) ''new-2'' (?st\<lparr>projectileRef := Some ?p0\<rparr>) =
           Some (?st\<lparr>bubblesRef := bubblesRef ?st @ [newBubbleOf ''new-2'' (moveProjectile ?p0) (?st\<lparr>projectileRef := Some ?p0\<rparr>)],
                   projectileRef := None\<rparr>)"
  proof (rule place_alone)
    show "gameState ?st = Playing" by (simp add: cexPlaying_def)
    show "collided (moveProjectile ?p0) (bubblesRef ?st)" by (rule c)
    show "\<forall>b\<in>set (bubblesRef ?st). b_color b \<noteq> p_color ?p0"
      using cexField_color by (simp add: cexPlaying_def cexBubble1_def)
    show "\<forall>b\<in>set (bubblesRef ?st). b_y b \<le> 400"
      using cexField1_rows by (fastforce simp: cexPlaying_def)
    show "b_y (newBubbleOf ''new-2'' (moveProjectile ?p0) (?st\<lparr>projectileRef := Some ?p0\<rparr>)) \<le> 400"
      unfolding nb by (simp add: cexBubble2_def)
  qed
  then show ?thesis unfolding nb by (simp add: cexPlaying_def)
qed

lemma replicate_last: "replicate (Suc n) x = replicate n x @ [x]"
  by (simp add: replicate_append_same)

lemma cex_run:
  "run 50 cexEvents (mounted ''#55FF55'') = Some (cexPlaying (cexField @ [cexBubble1, cexBubble2]) ''#FFFF55'')"
proof -
  have r33: "replicate 33 (Tick ''new-1'') = replicate 32 (Tick ''new-1'') @ [Tick ''new-1'']"
    using replicate_last [of 32 "Tick ''new-1''"] by simp
  have r31: "replicate 31 (Tick ''new-2'') = replicate 29 (Tick ''new-2'') @ [Tick ''new-2'', Tick ''new-2'']"
    using replicate_last [of 30 "Tick ''new-2''"] replicate_last [of 29 "Tick ''new-2''"] by simp
  have c1: "handleCanvasClick 152 445 ''#5555FF'' (cexPlaying cexField ''#55FF55'') =
      (cexPlaying cexField ''#5555FF'')\<lparr>projectileRef :=
        Some \<lparr>p_x = 160, p_y = 460, p_vx = - (64 / 17), p_vy = - (120 / 17), p_color = ''#55FF55''\<rparr>\<rparr>"
    by (subst click_first) (simp_all add: cexPlaying_def)
  have c2: "handleCanvasClick 157 456 ''#FFFF55'' (cexPlaying (cexField @ [cexBubble1]) ''#5555FF'') =
      (cexPlaying (cexField @ [cexBubble1]) ''#FFFF55'')\<lparr>projectileRef :=
        Some \<lparr>p_x = 160, p_y = 460, p_vx = - (24 / 5), p_vy = - (32 / 5), p_color = ''#5555FF''\<rparr>\<rparr>"
    by (subst click_second) (simp_all add: cexPlaying_def)
  show ?thesis
    unfolding cexEvents_def r33 r31
    by (simp add: run_append cex_reset c1 cex_shot1_flight cex_shot1_hit c2 cex_shot2_flight
          cex_shot2_bounce cex_shot2_hit)
qed

text \<open>
  C6 says that in every reachable state every bubble of the field has its \<open>x\<close> within
  \<open>[radius, width - radius]\<close>. The code breaks it at this run from the mounted component:
  a new game, a click towards \<open>(152, 445)\<close> and 33 ticks, a click towards \<open>(157, 456)\<close>
  and 31 ticks. The run ends in a playing state whose field holds the second placed bubble
  in cell \<open>(7, -1)\<close>, at \<open>x = 0\<close>, left of \<open>radius\<close>.
\<close>

theorem bubble_left_of_playfield:
  "run 50 cexEvents (mounted ''#55FF55'') = Some (cexPlaying (cexField @ [cexBubble1, cexBubble2]) ''#FFFF55'') \<and>
   cexBubble2 \<in> set (bubblesRef (cexPlaying (cexField @ [cexBubble1, cexBubble2]) ''#FFFF55'')) \<and>
   b_x cexBubble2 = 0 \<and> b_x cexBubble2 < BUBBLE_RADIUS"
  by (simp add: cex_run cexPlaying_def cexBubble2_def BUBBLE_RADIUS_def)

lemma getX_getCol_bounds:
  assumes "20 \<le> x" "x < 300"
  shows "20 \<le> getX row (getCol x row) \<and> getX row (getCol x row) \<le> 300"
proof (cases "row mod 2 = 0")
  case True
  let ?c = "round ((x - 20) / 40)"
  have "0 \<le> (x - 20) / 40 + 1 / 2" "(x - 20) / 40 + 1 / 2 < 8" using assms by (simp_all add: field_simps)
  then have "0 \<le> ?c" "?c \<le> 7" by (simp_all add: round_def floor_le_iff)
  then have "0 \<le> real_of_int ?c" "real_of_int ?c \<le> 7" by simp_all
  then show ?thesis using True by (simp add: getX_def getCol_def BUBBLE_RADIUS_def Let_def)
next
  case False
  let ?c = "round ((x - 40) / 40)"
  have "0 \<le> (x - 40) / 40 + 1 / 2" "(x - 40) / 40 + 1 / 2 < 7" using assms by (simp_all add: field_simps)
  then have "0 \<le> ?c" "?c \<le> 6" by (simp_all add: round_def floor_le_iff)
  then have "0 \<le> real_of_int ?c" "real_of_int ?c \<le> 6" by simp_all
  then show ?thesis using False by (simp add: getX_def getCol_def BUBBLE_RADIUS_def Let_def)
qed

lemma initial_x_bounds:
  "\<forall>b\<in>set (initialBubbles colorAt idAt). 20 \<le> b_x b \<and> b_x b \<le> 300"
  by (simp add: initialBubbles_rows upto_rec1 getX_def BUBBLE_RADIUS_def)

text \<open>
  Where the bounds do hold: on the initial field, and for a bubble materialized from a
  pre-collision abscissa in \<open>[radius, width - radius)\<close> into a free computed cell.
\<close>

lemma placement_inside_bounds:
  "(\<forall>b\<in>set (bubblesRef (initGame colorAt idAt st0)).
       BUBBLE_RADIUS \<le> b_x b \<and> b_x b \<le> CANVAS_WIDTH - BUBBLE_RADIUS) \<and>
   (BUBBLE_RADIUS \<le> p_x p - p_vx p \<and> p_x p - p_vx p < CANVAS_WIDTH - BUBBLE_RADIUS \<and>
    \<not> isOccupied (bubblesRef st) (getRow (p_y p - p_vy p)) (getCol (p_x p - p_vx p) (getRow (p_y p - p_vy p))) \<longrightarrow>
      BUBBLE_RADIUS \<le> b_x (newBubbleOf newId p st) \<and>
      b_x (newBubbleOf newId p st) \<le> CANVAS_WIDTH - BUBBLE_RADIUS)"
proof (intro conjI impI)
  show "\<forall>b\<in>set (bubblesRef (initGame colorAt idAt st0)).
       BUBBLE_RADIUS \<le> b_x b \<and> b_x b \<le> CANVAS_WIDTH - BUBBLE_RADIUS"
    using initial_x_bounds [of colorAt idAt]
    by (simp add: initGame_def BUBBLE_RADIUS_def CANVAS_WIDTH_def GRID_COLS_def)
next
  assume a: "BUBBLE_RADIUS \<le> p_x p - p_vx p \<and> p_x p - p_vx p < CANVAS_WIDTH - BUBBLE_RADIUS \<and>
    \<not> isOccupied (bubblesRef st) (getRow (p_y p - p_vy p)) (getCol (p_x p - p_vx p) (getRow (p_y p - p_vy p)))"
  then have x: "20 \<le> p_x p - p_vx p" "p_x p - p_vx p < 300"
    by (simp_all add: BUBBLE_RADIUS_def CANVAS_WIDTH_def GRID_COLS_def)
  from a have "b_x (newBubbleOf newId p st) =
      getX (getRow (p_y p - p_vy p)) (getCol (p_x p - p_vx p) (getRow (p_y p - p_vy p)))"
    by (simp add: newBubbleOf_def resolveCell_free Let_def)
  with getX_getCol_bounds [OF x, of "getRow (p_y p - p_vy p)"]
  show "BUBBLE_RADIUS \<le> b_x (newBubbleOf newId p st)"
    and "b_x (newBubbleOf newId p st) \<le> CANVAS_WIDTH - BUBBLE_RADIUS"
    by (simp_all add: BUBBLE_RADIUS_def CANVAS_WIDTH_def GRID_COLS_def)
qed

end
